theory Spec2Isabelle
  imports
    Complex_Main
    "HOL-Library.Sublist"
    "HOL-Library.Char_ord"
    "HOL-Library.List_Lexorder"
    "HOL-Library.Multiset"
begin

section \<open>Python strings and the builtins the chatbot uses\<close>

text \<open>
  A message is a \<^typ>\<open>string\<close> of ASCII characters; the classes below are what
  Python's \<^verbatim>\<open>str.lower\<close>, \<^verbatim>\<open>\d\<close>, \<^verbatim>\<open>\w\<close> and \<^verbatim>\<open>\s\<close> do on code points below
  128. A character outside ASCII is kept by \<open>lower\<close> and belongs to no class, so
  the model says nothing about accented letters or non-Latin digits.
\<close>

definition ascii_lowercase :: string where
  "ascii_lowercase = ''abcdefghijklmnopqrstuvwxyz''"

definition ascii_uppercase :: string where
  "ascii_uppercase = ''ABCDEFGHIJKLMNOPQRSTUVWXYZ''"

definition digits :: string where
  "digits = ''0123456789''"

definition lower_char :: "char \<Rightarrow> char" where
  "lower_char c =
     (case map_of (zip ascii_uppercase ascii_lowercase) c of Some l \<Rightarrow> l | None \<Rightarrow> c)"

definition upper_char :: "char \<Rightarrow> char" where
  "upper_char c =
     (case map_of (zip ascii_lowercase ascii_uppercase) c of Some u \<Rightarrow> u | None \<Rightarrow> c)"

text \<open>\<^verbatim>\<open>str.lower()\<close> and \<^verbatim>\<open>str.capitalize()\<close>.\<close>

definition lower :: "string \<Rightarrow> string" where
  "lower s = map lower_char s"

definition capitalize :: "string \<Rightarrow> string" where
  "capitalize s = (case s of [] \<Rightarrow> [] | c # cs \<Rightarrow> upper_char c # lower cs)"

text \<open>The regular-expression classes \<^verbatim>\<open>\d\<close>, \<^verbatim>\<open>\w\<close> and \<^verbatim>\<open>\s\<close>. On a \<^verbatim>\<open>str\<close>
  pattern \<^verbatim>\<open>\s\<close> also takes the four separator controls 0x1C to 0x1F.\<close>

definition is_digit :: "char \<Rightarrow> bool" where
  "is_digit c = (c \<in> set digits)"

definition is_word :: "char \<Rightarrow> bool" where
  "is_word c = (c \<in> set (ascii_lowercase @ ascii_uppercase @ digits @ ''_''))"

definition is_space :: "char \<Rightarrow> bool" where
  "is_space c =
     (c \<in> set [CHR 0x09, CHR 0x0A, CHR 0x0B, CHR 0x0C, CHR 0x0D,
                CHR 0x1C, CHR 0x1D, CHR 0x1E, CHR 0x1F, CHR '' ''])"

text \<open>The substring test \<^verbatim>\<open>word in text\<close>.\<close>

fun py_in :: "string \<Rightarrow> string \<Rightarrow> bool" where
  "py_in word [] = (word = [])"
| "py_in word (c # cs) = (prefix word (c # cs) \<or> py_in word cs)"

text \<open>
  \<^verbatim>\<open>int(s)\<close> on a group of decimal digits, the only strings the two patterns
  capture. It raises \<^verbatim>\<open>ValueError\<close> for a string that is no number and, in CPython,
  for one longer than the interpreter's limit on integer string conversion
  (\<^verbatim>\<open>sys.get_int_max_str_digits()\<close>, 4300 unless configured, 0 for no limit; the
  check is skipped up to 640 digits). The limit is interpreter state, so it is an
  argument here. Signs, underscores and surrounding blanks, which \<^verbatim>\<open>int\<close> also
  accepts, are outside the model: no captured group contains them.
\<close>

datatype error = ValueError

definition digit_value :: "char \<Rightarrow> int" where
  "digit_value c = int (of_char c) - 48"

definition decimal :: "string \<Rightarrow> int" where
  "decimal s = foldl (\<lambda>a c. 10 * a + digit_value c) 0 s"

definition py_int :: "nat \<Rightarrow> string \<Rightarrow> error + int" where
  "py_int max_str_digits s =
     (if s = [] \<or> \<not> list_all is_digit s then Inl ValueError
      else if 640 < length s \<and> 0 < max_str_digits \<and> max_str_digits < length s
        then Inl ValueError
      else Inr (decimal s))"

section \<open>nlp\_processor.py\<close>

definition REGIONS :: "string list" where
  "REGIONS = [''north'', ''south'', ''east'', ''west'']"

text \<open>The fields of the records carry a prefix (\<open>pq_\<close> here, \<open>col_\<close> and \<open>ar_\<close>
  below): a record field is a constant, and the bare names are variables of the code.\<close>

record ParsedQuery =
  pq_intent :: string
  pq_years :: "int list"
  pq_regions :: "string list"
  pq_top_n :: "int option"

subsection \<open>The pattern \<^verbatim>\<open>\b20\d{2}\b\<close>\<close>

text \<open>
  \<^verbatim>\<open>\b\<close> holds at position \<open>p\<close> of \<open>s\<close> when exactly one of the characters before
  and after the position is a word character (the ends of the string count as
  non-word). The pattern looks behind the match start, so matching is by position in
  the whole string.
\<close>

definition word_boundary :: "string \<Rightarrow> nat \<Rightarrow> bool" where
  "word_boundary s p =
     ((0 < p \<and> p \<le> length s \<and> is_word (s ! (p - 1))) \<noteq> (p < length s \<and> is_word (s ! p)))"

definition year_match_at :: "string \<Rightarrow> nat \<Rightarrow> bool" where
  "year_match_at s p =
     (p + 4 \<le> length s \<and> word_boundary s p
      \<and> s ! p = CHR ''2'' \<and> s ! (p + 1) = CHR ''0''
      \<and> is_digit (s ! (p + 2)) \<and> is_digit (s ! (p + 3))
      \<and> word_boundary s (p + 4))"

text \<open>\<^verbatim>\<open>re.search\<close> tries the start positions from the left and returns the first match.\<close>

definition re_search_year :: "string \<Rightarrow> nat option" where
  "re_search_year s = find (year_match_at s) [0..<Suc (length s)]"

text \<open>\<^verbatim>\<open>re.findall\<close> returns the group of every match, resuming the scan where the
  previous match ended.\<close>

function findall_year :: "string \<Rightarrow> nat \<Rightarrow> string list" where
  "findall_year s p =
     (if length s < p then []
      else if year_match_at s p then take 4 (drop p s) # findall_year s (p + 4)
      else findall_year s (p + 1))"
  by pat_completeness auto
termination
  by (relation "measure (\<lambda>(s, p). Suc (length s) - p)") (auto simp: year_match_at_def)

declare findall_year.simps [simp del]

subsection \<open>The pattern \<^verbatim>\<open>top\s+(\d+)\<close>\<close>

text \<open>
  Both repetitions are greedy, and no character is a blank and a digit at once, so the
  match at a position, when there is one, takes the longest run of blanks and then the
  longest run of digits; the function returns group 1.
\<close>

definition match_top_here :: "string \<Rightarrow> string option" where
  "match_top_here s =
     (if prefix ''top'' s then
        (let rest = drop 3 s;
             ws = takeWhile is_space rest;
             ds = takeWhile is_digit (dropWhile is_space rest)
         in if ws \<noteq> [] \<and> ds \<noteq> [] then Some ds else None)
      else None)"

fun re_search_top :: "string \<Rightarrow> string option" where
  "re_search_top [] = None"
| "re_search_top (c # cs) =
     (case match_top_here (c # cs) of Some g \<Rightarrow> Some g | None \<Rightarrow> re_search_top cs)"

subsection \<open>Intent and entities\<close>

definition detect_intent :: "string \<Rightarrow> string" where
  "detect_intent message =
     (let text = lower message in
      if list_ex (\<lambda>word. py_in word text) [''compare'', ''vs'', ''versus'']
         \<and> re_search_year text \<noteq> None
        then ''year_comparison''
      else if py_in ''trend'' text \<or> py_in ''over time'' text \<or> py_in ''monthly'' text
        then ''monthly_trend''
      else if py_in ''region'' text \<or> list_ex (\<lambda>r. py_in r text) REGIONS
        then ''sales_by_region''
      else if py_in ''top'' text \<or> py_in ''best'' text \<or> py_in ''highest'' text
        then ''top_products''
      else if py_in ''total'' text \<or> py_in ''overall'' text \<or> py_in ''revenue'' text
        then ''total_sales''
      else ''unknown'')"

text \<open>\<^verbatim>\<open>[int(y) for y in years]\<close>: the first conversion that raises ends the
  comprehension.\<close>

fun int_all :: "nat \<Rightarrow> string list \<Rightarrow> error + int list" where
  "int_all max_str_digits [] = Inr []"
| "int_all max_str_digits (y # ys) =
     (case py_int max_str_digits y of
        Inl e \<Rightarrow> Inl e
      | Inr v \<Rightarrow> (case int_all max_str_digits ys of Inl e \<Rightarrow> Inl e | Inr vs \<Rightarrow> Inr (v # vs)))"

definition extract_years :: "nat \<Rightarrow> string \<Rightarrow> error + int list" where
  "extract_years max_str_digits message =
     (case int_all max_str_digits (findall_year message 0) of
        Inl e \<Rightarrow> Inl e
      | Inr vs \<Rightarrow> Inr (sort (remdups vs)))"

text \<open>The second loop of \<^verbatim>\<open>extract_regions\<close>, with its \<^verbatim>\<open>seen\<close> set and
  \<^verbatim>\<open>unique\<close> list.\<close>

fun unique_loop :: "string list \<Rightarrow> string set \<Rightarrow> string list \<Rightarrow> string list" where
  "unique_loop [] seen unique = unique"
| "unique_loop (r # rs) seen unique =
     (if r \<notin> seen then unique_loop rs (insert r seen) (unique @ [r])
      else unique_loop rs seen unique)"

definition extract_regions :: "string \<Rightarrow> string list" where
  "extract_regions message =
     (let text = lower message;
          found = map capitalize (filter (\<lambda>region. py_in region text) REGIONS)
      in unique_loop found {} [])"

definition extract_top_n :: "nat \<Rightarrow> string \<Rightarrow> int option" where
  "extract_top_n max_str_digits message =
     (case re_search_top (lower message) of
        Some g \<Rightarrow>
          (case py_int max_str_digits g of
             Inr v \<Rightarrow> Some (max 1 v)
           | Inl ValueError \<Rightarrow> None)
      | None \<Rightarrow> None)"

definition parse_user_message :: "nat \<Rightarrow> string \<Rightarrow> error + ParsedQuery" where
  "parse_user_message max_str_digits message =
     (case extract_years max_str_digits message of
        Inl e \<Rightarrow> Inl e
      | Inr ys \<Rightarrow>
          Inr \<lparr> pq_intent = detect_intent message,
                pq_years = ys,
                pq_regions = extract_regions message,
                pq_top_n = extract_top_n max_str_digits message \<rparr>)"

section \<open>pandas, as far as analytics\_engine.py uses it\<close>

text \<open>
  A data frame is the list of its rows, in row order. Sales are \<^typ>\<open>rat\<close>: sums are
  exact, where pandas adds IEEE doubles, so the model says nothing about the rounding
  error of a sum, nor about NaN or infinite cells.
\<close>

text \<open>The columns of the sales data.\<close>

record sales_row =
  col_order_date :: string
  col_year :: int
  col_month :: int
  col_region :: string
  col_product :: string
  col_category :: string
  col_quantity :: int
  col_unit_price :: rat
  col_total_sales :: rat

text \<open>
  \<^verbatim>\<open>groupby(key)["total_sales"].sum()\<close>: one entry per key that occurs, with the sum of
  its rows; \<^verbatim>\<open>groupby\<close> sorts the group keys (\<^verbatim>\<open>sort=True\<close> is its default), strings by
  code point.
\<close>

definition groupby_sum :: "(sales_row \<Rightarrow> 'k::linorder) \<Rightarrow> sales_row list \<Rightarrow> ('k \<times> rat) list" where
  "groupby_sum key rows =
     map (\<lambda>k. (k, sum_list (map col_total_sales (filter (\<lambda>r. key r = k) rows))))
       (sort (remdups (map key rows)))"

text \<open>
  \<^verbatim>\<open>Series.sort_values(ascending=False)\<close>. pandas reverses the values, asks numpy for
  the ascending \<^verbatim>\<open>argsort\<close> of the reversed array, maps the answer back to the
  original positions and reverses it. The default kind, \<^verbatim>\<open>quicksort\<close>, promises an
  ascending permutation and no order among equal values, so numpy's \<open>argsort\<close> is an
  argument of the model, and \<open>argsort_contract\<close> is what every kind guarantees.
\<close>

definition sort_values_desc :: "(rat list \<Rightarrow> nat list) \<Rightarrow> ('k \<times> rat) list \<Rightarrow> ('k \<times> rat) list" where
  "sort_values_desc argsort xs =
     (let idx = [0..<length xs];
          non_nans = rev (map snd xs);
          non_nan_idx = rev idx;
          indexer = rev (map (\<lambda>j. non_nan_idx ! j) (argsort non_nans))
      in map (\<lambda>i. xs ! i) indexer)"

definition argsort_contract :: "(rat list \<Rightarrow> nat list) \<Rightarrow> bool" where
  "argsort_contract argsort =
     (\<forall>vs. mset (argsort vs) = mset [0..<length vs] \<and> sorted (map (\<lambda>i. vs ! i) (argsort vs)))"

text \<open>A stable kind (\<^verbatim>\<open>mergesort\<close>, or numpy's insertion sort on short arrays): equal
  values keep their positions' order.\<close>

definition stable_argsort :: "rat list \<Rightarrow> nat list" where
  "stable_argsort vs = map snd (sort_key fst (zip vs [0..<length vs]))"

text \<open>\<^verbatim>\<open>head(n)\<close>: the first \<open>n\<close> rows, or all but the last \<open>-n\<close> for a negative \<open>n\<close>.\<close>

definition head :: "int \<Rightarrow> 'a list \<Rightarrow> 'a list" where
  "head n xs = (if 0 \<le> n then take (nat n) xs else take (length xs - nat (- n)) xs)"

text \<open>\<^verbatim>\<open>round(x, 2)\<close>: to the nearest multiple of 1/100, a tie going to the even one.\<close>

definition round_half_even :: "rat \<Rightarrow> int" where
  "round_half_even x =
     (let f = \<lfloor>x\<rfloor>; d = x - of_int f
      in if d < 1 / 2 then f else if 1 / 2 < d then f + 1 else if even f then f else f + 1)"

definition round2 :: "rat \<Rightarrow> rat" where
  "round2 x = of_int (round_half_even (x * 100)) / 100"

text \<open>\<^verbatim>\<open>str(i)\<close> and \<^verbatim>\<open>sep.join(xs)\<close>, for the descriptions.\<close>

fun str_nat :: "nat \<Rightarrow> string" where
  "str_nat n = (if n < 10 then [digits ! n] else str_nat (n div 10) @ [digits ! (n mod 10)])"

declare str_nat.simps [simp del]

definition str_int :: "int \<Rightarrow> string" where
  "str_int i = (if i < 0 then CHR ''-'' # str_nat (nat (- i)) else str_nat (nat i))"

fun join :: "string \<Rightarrow> string list \<Rightarrow> string" where
  "join sep [] = []"
| "join sep [x] = x"
| "join sep (x # y # ys) = x @ sep @ join sep (y # ys)"

text \<open>Truth of an optional list (\<^verbatim>\<open>if years:\<close>), and \<^verbatim>\<open>years or []\<close>.\<close>

fun truthy :: "'a list option \<Rightarrow> bool" where
  "truthy None = False"
| "truthy (Some xs) = (xs \<noteq> [])"

fun or_empty :: "'a list option \<Rightarrow> 'a list" where
  "or_empty None = []"
| "or_empty (Some xs) = xs"

section \<open>analytics\_engine.py\<close>

text \<open>The result tables, one shape per intent, with the columns in their order.\<close>

datatype table =
    TotalTable "rat list"
  | ProductTable "(string \<times> rat) list"
  | RegionTable "(string \<times> rat) list"
  | MonthTable "(int \<times> rat) list"
  | YearTable "(int \<times> rat) list"

record AnalysisResult =
  ar_intent :: string
  ar_table :: table
  ar_years :: "int list"
  ar_regions :: "string list"
  ar_description :: string

definition filter_data :: "sales_row list \<Rightarrow> int list option \<Rightarrow> string list option \<Rightarrow> sales_row list" where
  "filter_data df years regions =
     (let filtered = df;
          filtered = (if truthy years
                      then filter (\<lambda>r. col_year r \<in> set (or_empty years)) filtered
                      else filtered);
          filtered = (if truthy regions
                      then filter (\<lambda>r. col_region r \<in> set (or_empty regions)) filtered
                      else filtered)
      in filtered)"

definition total_sales :: "sales_row list \<Rightarrow> int list option \<Rightarrow> string list option \<Rightarrow> AnalysisResult" where
  "total_sales df years regions =
     (let data = filter_data df years regions;
          total = sum_list (map col_total_sales data);
          table = TotalTable [round2 total];
          desc = ''Total sales'';
          desc = (if truthy years
                  then desc @ '' for years '' @ join '', '' (map str_int (or_empty years))
                  else desc);
          desc = (if truthy regions
                  then desc @ '' in regions '' @ join '', '' (or_empty regions)
                  else desc)
      in \<lparr> ar_intent = ''total_sales'', ar_table = table, ar_years = or_empty years,
           ar_regions = or_empty regions, ar_description = desc \<rparr>)"

definition top_n_products ::
  "(rat list \<Rightarrow> nat list) \<Rightarrow> sales_row list \<Rightarrow> int \<Rightarrow> int list option \<Rightarrow> string list option
     \<Rightarrow> AnalysisResult" where
  "top_n_products argsort df n years regions =
     (let data = filter_data df years regions;
          grouped = head n (sort_values_desc argsort (groupby_sum col_product data));
          desc = ''Top '' @ str_int n @ '' products by sales'';
          desc = (if truthy years
                  then desc @ '' in years '' @ join '', '' (map str_int (or_empty years))
                  else desc);
          desc = (if truthy regions
                  then desc @ '' for regions '' @ join '', '' (or_empty regions)
                  else desc)
      in \<lparr> ar_intent = ''top_products'', ar_table = ProductTable grouped, ar_years = or_empty years,
           ar_regions = or_empty regions, ar_description = desc \<rparr>)"

definition sales_by_region ::
  "(rat list \<Rightarrow> nat list) \<Rightarrow> sales_row list \<Rightarrow> int list option \<Rightarrow> AnalysisResult" where
  "sales_by_region argsort df years =
     (let data = filter_data df years None;
          grouped = sort_values_desc argsort (groupby_sum col_region data);
          desc = ''Sales by region'';
          desc = (if truthy years
                  then desc @ '' for years '' @ join '', '' (map str_int (or_empty years))
                  else desc)
      in \<lparr> ar_intent = ''sales_by_region'', ar_table = RegionTable grouped, ar_years = or_empty years,
           ar_regions = map fst grouped, ar_description = desc \<rparr>)"

text \<open>The rows \<^verbatim>\<open>monthly_trend\<close> keeps: those of the year and of the region, when given.\<close>

definition monthly_trend_data :: "sales_row list \<Rightarrow> int option \<Rightarrow> string option \<Rightarrow> sales_row list" where
  "monthly_trend_data df year region =
     (let data = df;
          data = (case year of None \<Rightarrow> data
                  | Some y \<Rightarrow> filter (\<lambda>r. col_year r = y) data);
          data = (case region of None \<Rightarrow> data
                  | Some g \<Rightarrow> filter (\<lambda>r. col_region r = g) data)
      in data)"

text \<open>\<^verbatim>\<open>sort_index()\<close> and \<^verbatim>\<open>sort_values("year")\<close> sort by the group key. The keys of a
  grouped table are distinct, so every sorting kind gives the same rows.\<close>

definition monthly_trend :: "sales_row list \<Rightarrow> int option \<Rightarrow> string option \<Rightarrow> AnalysisResult" where
  "monthly_trend df year region =
     (let data = monthly_trend_data df year region;
          years = (case year of None \<Rightarrow> [] | Some y \<Rightarrow> [y]);
          regions = (case region of None \<Rightarrow> [] | Some g \<Rightarrow> [g]);
          grouped = sort_key fst (groupby_sum col_month data);
          desc = ''Monthly sales trend'';
          desc = (case year of None \<Rightarrow> desc | Some y \<Rightarrow> desc @ '' for '' @ str_int y);
          desc = (case region of None \<Rightarrow> desc | Some g \<Rightarrow> desc @ '' in '' @ g)
      in \<lparr> ar_intent = ''monthly_trend'', ar_table = MonthTable grouped, ar_years = years,
           ar_regions = regions, ar_description = desc \<rparr>)"

text \<open>Truth of an optional string (\<^verbatim>\<open>if region\<close>): given and not empty.\<close>

fun given :: "string option \<Rightarrow> bool" where
  "given None = False"
| "given (Some s) = (s \<noteq> [])"

text \<open>The years \<^verbatim>\<open>year_comparison\<close> compares: the requested ones, or all of the data.\<close>

definition year_comparison_years :: "sales_row list \<Rightarrow> int list option \<Rightarrow> int list" where
  "year_comparison_years df years =
     (if \<not> truthy years \<or> length (or_empty years) < 2
      then sort (remdups (map col_year df))
      else or_empty years)"

definition year_comparison :: "sales_row list \<Rightarrow> int list option \<Rightarrow> string option \<Rightarrow> AnalysisResult" where
  "year_comparison df years region =
     (let years = year_comparison_years df years;
          data = filter_data df (Some years) (if given region then Some [the region] else None);
          grouped = sort_key fst (groupby_sum col_year data);
          regions = (if given region then [the region] else []);
          desc = ''Year-on-year sales comparison'';
          desc = (if given region then desc @ '' for region '' @ the region else desc)
      in \<lparr> ar_intent = ''year_comparison'', ar_table = YearTable grouped, ar_years = years,
           ar_regions = regions, ar_description = desc \<rparr>)"

section \<open>main.py\<close>

definition handle_query ::
  "(rat list \<Rightarrow> nat list) \<Rightarrow> string \<Rightarrow> sales_row list \<Rightarrow> ParsedQuery \<Rightarrow> AnalysisResult option" where
  "handle_query argsort message data parsed =
     (let intent = pq_intent parsed;
          years = (if pq_years parsed \<noteq> [] then Some (pq_years parsed) else None);
          regions = (if pq_regions parsed \<noteq> [] then Some (pq_regions parsed)
                     else None)
      in if intent = ''total_sales'' then Some (total_sales data years regions)
         else if intent = ''top_products'' then
           (let n = (case pq_top_n parsed of
                       None \<Rightarrow> 5
                     | Some k \<Rightarrow> if k \<noteq> 0 then k else 5)
            in Some (top_n_products argsort data n years regions))
         else if intent = ''sales_by_region'' then Some (sales_by_region argsort data years)
         else if intent = ''monthly_trend'' then
           (let year = (if truthy years then Some (hd (or_empty years)) else None);
                region = (if truthy regions then Some (hd (or_empty regions)) else None)
            in Some (monthly_trend data year region))
         else if intent = ''year_comparison'' then
           (let region = (if truthy regions then Some (hd (or_empty regions)) else None)
            in Some (year_comparison data years region))
         else None)"

section \<open>The specification's vocabulary\<close>

text \<open>
  A word-bounded four-digit token matching \<^verbatim>\<open>20\d\d\<close>: the string splits around the
  token, which is \<^verbatim>\<open>20\<close> and two digits, and neither the character before it nor the
  character after it, if there is one, is a word character.
\<close>

definition year_token :: "string \<Rightarrow> string \<Rightarrow> bool" where
  "year_token s tok =
     (\<exists>ps ss c d. s = ps @ tok @ ss \<and> tok = [CHR ''2'', CHR ''0'', c, d]
        \<and> is_digit c \<and> is_digit d
        \<and> \<not> (ps \<noteq> [] \<and> is_word (last ps)) \<and> \<not> (ss \<noteq> [] \<and> is_word (hd ss)))"

text \<open>
  A string matches \<^verbatim>\<open>top\s+(\d+)\<close> somewhere when it splits into a prefix, the word
  \<^verbatim>\<open>top\<close>, one or more blanks, one or more digits, and a rest.
\<close>

definition top_pattern :: "string \<Rightarrow> bool" where
  "top_pattern s =
     (\<exists>pre ws ds post. s = pre @ ''top'' @ ws @ ds @ post
        \<and> ws \<noteq> [] \<and> list_all is_space ws \<and> ds \<noteq> [] \<and> list_all is_digit ds)"

text \<open>The sum of a group: the sales of the rows whose key is \<open>k\<close>.\<close>

definition group_total :: "(sales_row \<Rightarrow> 'k) \<Rightarrow> sales_row list \<Rightarrow> 'k \<Rightarrow> rat" where
  "group_total key rows k = sum_list (map col_total_sales (filter (\<lambda>r. key r = k) rows))"

text \<open>
  ``Rounded to 2 decimals'': \<open>v\<close> is a whole number of hundredths, at most half a
  hundredth away from \<open>x\<close>, and an even number of hundredths when \<open>x\<close> lies exactly
  halfway between two of them.
\<close>

definition rounded_to_2_decimals :: "rat \<Rightarrow> rat \<Rightarrow> bool" where
  "rounded_to_2_decimals x v =
     (let k = \<lfloor>v * 100\<rfloor>
      in of_int k = v * 100 \<and> \<bar>v - x\<bar> \<le> 1 / 200 \<and> (\<bar>v - x\<bar> = 1 / 200 \<longrightarrow> even k))"

text \<open>
  ``First-encountered-group order among equal sums'': of two products of a table with
  the same sum, the one listed first is the one whose first row comes first in the
  filtered rows.
\<close>

definition first_seen :: "sales_row list \<Rightarrow> string \<Rightarrow> nat" where
  "first_seen rows p = length (takeWhile (\<lambda>r. col_product r \<noteq> p) rows)"

fun ties_first_encountered :: "sales_row list \<Rightarrow> (string \<times> rat) list \<Rightarrow> bool" where
  "ties_first_encountered rows [] = True"
| "ties_first_encountered rows (x # t) =
     (list_all (\<lambda>y. if snd y = snd x then first_seen rows (fst x) < first_seen rows (fst y)
                     else True) t
      \<and> ties_first_encountered rows t)"

text \<open>Sample data: an order of one unit.\<close>

definition sale :: "string \<Rightarrow> string \<Rightarrow> int \<Rightarrow> int \<Rightarrow> rat \<Rightarrow> sales_row" where
  "sale p g y m v =
     \<lparr> col_order_date = [], col_year = y, col_month = m, col_region = g, col_product = p,
       col_category = [], col_quantity = 1, col_unit_price = v, col_total_sales = v \<rparr>"

definition sample_df :: "sales_row list" where
  "sample_df =
     [sale ''Tablet'' ''North'' 2023 3 10,
      sale ''Laptop'' ''South'' 2022 1 10,
      sale ''Desktop'' ''North'' 2021 12 (1 / 8),
      sale ''Tablet'' ''East'' 2024 3 (5 / 2)]"

definition tie_df :: "sales_row list" where
  "tie_df = [sale ''Tablet'' ''North'' 2023 1 10, sale ''Laptop'' ''North'' 2023 1 10]"

text \<open>Sales that are not whole hundredths: eighths, which a double holds exactly, and
  thousandths.\<close>

definition cents_df :: "sales_row list" where
  "cents_df =
     [sale ''Desktop'' ''North'' 2021 12 (1 / 8),
      sale ''Laptop'' ''South'' 2022 1 (3 / 8),
      sale ''Tablet'' ''East'' 2023 3 (127 / 1000),
      sale ''Tablet'' ''East'' 2023 4 (1 / 1000)]"

section \<open>Properties of the query interpreter\<close>

subsection \<open>Substrings and the year pattern\<close>

lemma py_in_iff_sublist: "py_in w t \<longleftrightarrow> sublist w t"
  by (induction t) (auto simp: sublist_Cons_right)

lemma re_search_year_None: "re_search_year s = None \<longleftrightarrow> (\<forall>p. \<not> year_match_at s p)"
proof -
  have "year_match_at s p \<Longrightarrow> p \<in> set [0..<Suc (length s)]" for p
    by (simp add: year_match_at_def)
  then show ?thesis
    by (simp only: re_search_year_def find_None_iff) blast
qed

lemma is_digit_is_word: "is_digit c \<Longrightarrow> is_word c"
  by (auto simp: is_digit_def is_word_def digits_def)

text \<open>The position semantics of the year pattern agrees with the reading of the
  specification: a match at a position is a word-bounded token there.\<close>

lemma year_match_at_token:
  "year_match_at s p \<longleftrightarrow>
     (\<exists>ps ss c d. s = ps @ [CHR ''2'', CHR ''0'', c, d] @ ss \<and> length ps = p
        \<and> is_digit c \<and> is_digit d
        \<and> \<not> (ps \<noteq> [] \<and> is_word (last ps)) \<and> \<not> (ss \<noteq> [] \<and> is_word (hd ss)))"
proof
  assume m: "year_match_at s p"
  then have len: "p + 4 \<le> length s"
    and c2: "s ! p = CHR ''2''" and c0: "s ! (p + 1) = CHR ''0''"
    and d2: "is_digit (s ! (p + 2))" and d3: "is_digit (s ! (p + 3))"
    and b1: "word_boundary s p" and b2: "word_boundary s (p + 4)"
    by (simp_all add: year_match_at_def)
  define ps where "ps = take p s"
  define ss where "ss = drop (p + 4) s"
  have d0: "drop p s = s ! p # drop (Suc p) s"
    and d1: "drop (Suc p) s = s ! (p + 1) # drop (Suc (Suc p)) s"
    and d2': "drop (Suc (Suc p)) s = s ! (p + 2) # drop (Suc (Suc (Suc p))) s"
    and d3': "drop (Suc (Suc (Suc p))) s = s ! (p + 3) # drop (Suc (Suc (Suc (Suc p)))) s"
    using len by (simp_all add: Cons_nth_drop_Suc numeral_2_eq_2 numeral_3_eq_3)
  have tok: "take 4 (drop p s) = [s ! p, s ! (p + 1), s ! (p + 2), s ! (p + 3)]"
    by (simp add: d0 d1 d2' d3')
  have e1: "s = take p s @ (take 4 (drop p s) @ drop 4 (drop p s))"
    by (simp only: append_take_drop_id)
  have e2: "drop 4 (drop p s) = drop (p + 4) s"
    by (simp add: add.commute)
  from e1 have "s = ps @ [s ! p, s ! (p + 1), s ! (p + 2), s ! (p + 3)] @ ss"
    unfolding tok e2 ps_def ss_def .
  then have split: "s = ps @ [CHR ''2'', CHR ''0'', s ! (p + 2), s ! (p + 3)] @ ss"
    by (simp only: c2 c0)
  have lp: "length ps = p" using len by (simp add: ps_def)
  have w2: "is_word (s ! p)" using c2 by (simp add: is_word_def digits_def)
  have w3: "is_word (s ! (p + 3))" using d3 by (rule is_digit_is_word)
  have before: "\<not> (ps \<noteq> [] \<and> is_word (last ps))"
  proof
    assume a: "ps \<noteq> [] \<and> is_word (last ps)"
    then have "0 < p" using lp by auto
    moreover have "last ps = s ! (p - 1)"
      using a lp len by (simp add: ps_def last_conv_nth)
    ultimately show False
      using a b1 w2 len by (simp add: word_boundary_def)
  qed
  have after: "\<not> (ss \<noteq> [] \<and> is_word (hd ss))"
  proof
    assume a: "ss \<noteq> [] \<and> is_word (hd ss)"
    then have lt: "p + 4 < length s" by (simp add: ss_def)
    then have "hd ss = s ! (p + 4)"
      by (simp add: ss_def hd_drop_conv_nth)
    then show False
      using a b2 w3 lt by (simp add: word_boundary_def add.commute)
  qed
  show "\<exists>ps ss c d. s = ps @ [CHR ''2'', CHR ''0'', c, d] @ ss \<and> length ps = p
        \<and> is_digit c \<and> is_digit d
        \<and> \<not> (ps \<noteq> [] \<and> is_word (last ps)) \<and> \<not> (ss \<noteq> [] \<and> is_word (hd ss))"
    using split lp d2 d3 before after by blast
next
  assume "\<exists>ps ss c d. s = ps @ [CHR ''2'', CHR ''0'', c, d] @ ss \<and> length ps = p
        \<and> is_digit c \<and> is_digit d
        \<and> \<not> (ps \<noteq> [] \<and> is_word (last ps)) \<and> \<not> (ss \<noteq> [] \<and> is_word (hd ss))"
  then obtain ps ss c d where s: "s = ps @ [CHR ''2'', CHR ''0'', c, d] @ ss"
    and lp: "length ps = p" and dc: "is_digit c" and dd: "is_digit d"
    and before: "\<not> (ps \<noteq> [] \<and> is_word (last ps))"
    and after: "\<not> (ss \<noteq> [] \<and> is_word (hd ss))"
    by blast
  have n0: "s ! p = CHR ''2''" and n1: "s ! (p + 1) = CHR ''0''"
    and n2: "s ! (p + 2) = c" and n3: "s ! (p + 3) = d"
    using lp by (simp_all add: s nth_append)
  have len: "length s = p + 4 + length ss" using lp by (simp add: s)
  have w2: "is_word CHR ''2''" by (simp add: is_word_def digits_def)
  have wd: "is_word d" using dd by (rule is_digit_is_word)
  have "word_boundary s p"
  proof -
    have "\<not> (0 < p \<and> p \<le> length s \<and> is_word (s ! (p - 1)))"
    proof
      assume a: "0 < p \<and> p \<le> length s \<and> is_word (s ! (p - 1))"
      then have ne: "ps \<noteq> []" using lp by auto
      have "p - 1 < p" using a by simp
      then have "last ps = s ! (p - 1)"
        using ne lp by (simp add: s nth_append last_conv_nth)
      then show False using a ne before by simp
    qed
    then show ?thesis
      using n0 w2 len by (simp add: word_boundary_def)
  qed
  moreover have "word_boundary s (p + 4)"
  proof -
    have "\<not> (p + 4 < length s \<and> is_word (s ! (p + 4)))"
    proof
      assume a: "p + 4 < length s \<and> is_word (s ! (p + 4))"
      then have ne: "ss \<noteq> []" using len by auto
      then have "hd ss = s ! (p + 4)"
        using lp by (simp add: s nth_append hd_conv_nth)
      then show False using a ne after by simp
    qed
    then show ?thesis
      using n3 wd len by (simp add: word_boundary_def add.commute)
  qed
  ultimately show "year_match_at s p"
    using n0 n1 n2 n3 dc dd len by (simp add: year_match_at_def)
qed

lemma year_token_iff: "year_token s tok \<longleftrightarrow> (\<exists>p. year_match_at s p \<and> tok = take 4 (drop p s))"
proof
  assume "year_token s tok"
  then obtain ps ss c d where s: "s = ps @ tok @ ss" and t: "tok = [CHR ''2'', CHR ''0'', c, d]"
    and r: "is_digit c" "is_digit d" "\<not> (ps \<noteq> [] \<and> is_word (last ps))"
      "\<not> (ss \<noteq> [] \<and> is_word (hd ss))"
    unfolding year_token_def by blast
  have "year_match_at s (length ps)"
    unfolding year_match_at_token using s t r by blast
  moreover have "tok = take 4 (drop (length ps) s)"
    by (simp add: s t)
  ultimately show "\<exists>p. year_match_at s p \<and> tok = take 4 (drop p s)" by blast
next
  assume "\<exists>p. year_match_at s p \<and> tok = take 4 (drop p s)"
  then obtain p where m: "year_match_at s p" and tk: "tok = take 4 (drop p s)" by blast
  from m obtain ps ss c d where s: "s = ps @ [CHR ''2'', CHR ''0'', c, d] @ ss"
    and lp: "length ps = p"
    and r: "is_digit c" "is_digit d" "\<not> (ps \<noteq> [] \<and> is_word (last ps))"
      "\<not> (ss \<noteq> [] \<and> is_word (hd ss))"
    unfolding year_match_at_token by blast
  have "tok = [CHR ''2'', CHR ''0'', c, d]"
    using lp by (simp add: tk s)
  with s r show "year_token s tok"
    unfolding year_token_def by blast
qed

lemma year_token_ex: "(\<exists>tok. year_token s tok) \<longleftrightarrow> (\<exists>p. year_match_at s p)"
  by (auto simp: year_token_iff)

lemma sublist_lower: "sublist w (lower t) \<longleftrightarrow> (\<exists>u. sublist u t \<and> lower u = w)"
proof
  assume "sublist w (lower t)"
  then obtain ps ss where "map lower_char t = ps @ w @ ss"
    by (auto simp: sublist_def lower_def)
  then obtain ps' r where r: "t = ps' @ r" "map lower_char r = w @ ss"
    by (metis map_eq_append_conv)
  then obtain u ss' where "r = u @ ss'" "map lower_char u = w"
    by (metis map_eq_append_conv)
  with r show "\<exists>u. sublist u t \<and> lower u = w"
    by (auto simp: lower_def)
next
  assume "\<exists>u. sublist u t \<and> lower u = w"
  then show "sublist w (lower t)"
    by (auto simp: lower_def intro: map_mono_sublist)
qed

lemma detect_intent_rules:
  "detect_intent message =
     (let text = lower message in
      if list_ex (\<lambda>word. sublist word text) [''compare'', ''vs'', ''versus'']
         \<and> (\<exists>tok. year_token text tok)
        then ''year_comparison''
      else if list_ex (\<lambda>word. sublist word text) [''trend'', ''over time'', ''monthly'']
        then ''monthly_trend''
      else if list_ex (\<lambda>word. sublist word text) (''region'' # REGIONS)
        then ''sales_by_region''
      else if list_ex (\<lambda>word. sublist word text) [''top'', ''best'', ''highest'']
        then ''top_products''
      else if list_ex (\<lambda>word. sublist word text) [''total'', ''overall'', ''revenue'']
        then ''total_sales''
      else ''unknown'')"
proof -
  have "re_search_year (lower message) \<noteq> None \<longleftrightarrow> (\<exists>tok. year_token (lower message) tok)"
    by (simp add: re_search_year_None year_token_ex)
  then show ?thesis
    by (simp add: detect_intent_def Let_def py_in_iff_sublist)
qed

subsection \<open>Intent detection\<close>

text \<open>
  C1. A message whose lowercased text contains one of \<^verbatim>\<open>compare\<close>, \<^verbatim>\<open>vs\<close>,
  \<^verbatim>\<open>versus\<close> as a substring and contains a word-bounded token \<^verbatim>\<open>20\d\d\<close> is
  classified \<open>year_comparison\<close>, whatever other keywords it holds: the first rule of
  the cascade wins.
\<close>

theorem detect_intent_year_comparison_first:
  assumes "list_ex (\<lambda>word. sublist word (lower message)) [''compare'', ''vs'', ''versus'']"
    and "\<exists>tok. year_token (lower message) tok"
  shows "detect_intent message = ''year_comparison''"
  using assms by (simp only: detect_intent_rules Let_def simp_thms if_True)

text \<open>The message below also holds \<^verbatim>\<open>region\<close> and \<^verbatim>\<open>trend\<close>, keywords of rules 2
  and 3.\<close>

theorem detect_intent_year_comparison_first_witness:
  "list_ex (\<lambda>word. sublist word (lower ''Compare region trend 2023''))
     [''compare'', ''vs'', ''versus'']
   \<and> year_token (lower ''Compare region trend 2023'') ''2023''
   \<and> detect_intent ''Compare region trend 2023'' = ''year_comparison''"
proof -
  have a: "list_ex (\<lambda>word. sublist word (lower ''Compare region trend 2023''))
     [''compare'', ''vs'', ''versus'']"
    by code_simp
  have "year_match_at (lower ''Compare region trend 2023'') 21"
    by code_simp
  moreover have "take 4 (drop 21 (lower ''Compare region trend 2023'')) = ''2023''"
    by code_simp
  ultimately have b: "year_token (lower ''Compare region trend 2023'') ''2023''"
    unfolding year_token_iff by metis
  from b have c: "\<exists>tok. year_token (lower ''Compare region trend 2023'') tok" ..
  show ?thesis
    using a b detect_intent_year_comparison_first [OF a c] by (intro conjI)
qed

text \<open>
  C10. The keyword tests are substring tests on the lowercased message, with no word
  boundary: a message containing \<^verbatim>\<open>least\<close> that fires neither rule 1 nor rule 2 is
  classified \<open>sales_by_region\<close> through the \<^verbatim>\<open>east\<close> inside it, and a message
  containing \<^verbatim>\<open>stop\<close> that fires none of rules 1 to 3 is classified
  \<open>top_products\<close> through the \<^verbatim>\<open>top\<close> inside it.
\<close>

theorem detect_intent_keyword_inside_word:
  "(sublist ''least'' (lower message)
      \<and> \<not> (list_ex (\<lambda>word. sublist word (lower message)) [''compare'', ''vs'', ''versus'']
             \<and> (\<exists>tok. year_token (lower message) tok))
      \<and> \<not> list_ex (\<lambda>word. sublist word (lower message)) [''trend'', ''over time'', ''monthly'']
    \<longrightarrow> detect_intent message = ''sales_by_region'')
   \<and> (sublist ''stop'' (lower message)
      \<and> \<not> (list_ex (\<lambda>word. sublist word (lower message)) [''compare'', ''vs'', ''versus'']
             \<and> (\<exists>tok. year_token (lower message) tok))
      \<and> \<not> list_ex (\<lambda>word. sublist word (lower message)) [''trend'', ''over time'', ''monthly'']
      \<and> \<not> list_ex (\<lambda>word. sublist word (lower message)) (''region'' # REGIONS)
    \<longrightarrow> detect_intent message = ''top_products'')"
proof (intro conjI impI)
  assume h: "sublist ''least'' (lower message)
      \<and> \<not> (list_ex (\<lambda>word. sublist word (lower message)) [''compare'', ''vs'', ''versus'']
             \<and> (\<exists>tok. year_token (lower message) tok))
      \<and> \<not> list_ex (\<lambda>word. sublist word (lower message)) [''trend'', ''over time'', ''monthly'']"
  have "sublist ''east'' ''least''" by code_simp
  with h have "sublist ''east'' (lower message)"
    by (blast intro: sublist_order.order_trans)
  then have "list_ex (\<lambda>word. sublist word (lower message)) (''region'' # REGIONS)"
    by (simp add: REGIONS_def)
  with h show "detect_intent message = ''sales_by_region''"
    by (simp only: detect_intent_rules Let_def simp_thms if_True if_False)
next
  assume h: "sublist ''stop'' (lower message)
      \<and> \<not> (list_ex (\<lambda>word. sublist word (lower message)) [''compare'', ''vs'', ''versus'']
             \<and> (\<exists>tok. year_token (lower message) tok))
      \<and> \<not> list_ex (\<lambda>word. sublist word (lower message)) [''trend'', ''over time'', ''monthly'']
      \<and> \<not> list_ex (\<lambda>word. sublist word (lower message)) (''region'' # REGIONS)"
  have "sublist ''top'' ''stop''" by code_simp
  with h have "sublist ''top'' (lower message)"
    by (blast intro: sublist_order.order_trans)
  then have "list_ex (\<lambda>word. sublist word (lower message)) [''top'', ''best'', ''highest'']"
    by simp
  with h show "detect_intent message = ''top_products''"
    by (simp only: detect_intent_rules Let_def simp_thms if_True if_False)
qed

theorem detect_intent_keyword_inside_word_witness:
  "sublist ''least'' (lower ''at least'')
   \<and> detect_intent ''at least'' = ''sales_by_region''
   \<and> \<not> sublist '' east'' (lower ''at least'')
   \<and> sublist ''stop'' (lower ''Stop'')
   \<and> detect_intent ''Stop'' = ''top_products''"
proof -
  have y1: "\<not> (\<exists>tok. year_token (lower ''at least'') tok)"
  proof -
    have "re_search_year (lower ''at least'') = None" by code_simp
    then show ?thesis by (simp add: re_search_year_None year_token_ex)
  qed
  have y2: "\<not> (\<exists>tok. year_token (lower ''Stop'') tok)"
  proof -
    have "re_search_year (lower ''Stop'') = None" by code_simp
    then show ?thesis by (simp add: re_search_year_None year_token_ex)
  qed
  have a1: "sublist ''least'' (lower ''at least'')" by code_simp
  have a2: "\<not> list_ex (\<lambda>word. sublist word (lower ''at least''))
      [''trend'', ''over time'', ''monthly'']" by code_simp
  have a3: "\<not> sublist '' east'' (lower ''at least'')" by code_simp
  have b1: "sublist ''stop'' (lower ''Stop'')" by code_simp
  have b2: "\<not> list_ex (\<lambda>word. sublist word (lower ''Stop''))
      [''trend'', ''over time'', ''monthly'']" by code_simp
  have b3: "\<not> list_ex (\<lambda>word. sublist word (lower ''Stop'')) (''region'' # REGIONS)"
    by code_simp
  have "detect_intent ''at least'' = ''sales_by_region''"
    using detect_intent_keyword_inside_word [of "''at least''"] a1 a2 y1 by blast
  moreover have "detect_intent ''Stop'' = ''top_products''"
    using detect_intent_keyword_inside_word [of "''Stop''"] b1 b2 b3 y2 by blast
  ultimately show ?thesis
    using a1 a3 b1 by (intro conjI)
qed

subsection \<open>Regions\<close>

lemma unique_loop_distinct:
  "distinct rs \<Longrightarrow> set rs \<inter> seen = {} \<Longrightarrow> unique_loop rs seen unique = unique @ rs"
  by (induction rs arbitrary: seen unique) auto

lemma capitalize_REGIONS: "map capitalize REGIONS = [''North'', ''South'', ''East'', ''West'']"
  by code_simp

lemma lower_capitalize_region: "r \<in> set REGIONS \<Longrightarrow> lower (capitalize r) = r"
proof -
  have "list_all (\<lambda>r. lower (capitalize r) = r) REGIONS"
    by code_simp
  then show "r \<in> set REGIONS \<Longrightarrow> lower (capitalize r) = r"
    by (simp add: list_all_iff)
qed

lemma found_regions:
  "map capitalize (filter (\<lambda>r. py_in r text) REGIONS)
     = filter (\<lambda>R. sublist (lower R) text) (map capitalize REGIONS)"
proof -
  have "filter (\<lambda>R. sublist (lower R) text) (map capitalize REGIONS)
      = map capitalize (filter (\<lambda>r. sublist ((lower \<circ> capitalize) r) text) REGIONS)"
    by (simp add: filter_map comp_def)
  also have "filter (\<lambda>r. sublist ((lower \<circ> capitalize) r) text) REGIONS
      = filter (\<lambda>r. py_in r text) REGIONS"
    by (intro filter_cong refl) (simp add: py_in_iff_sublist lower_capitalize_region)
  finally show ?thesis by simp
qed

lemma extract_regions_eq:
  "extract_regions message
     = filter (\<lambda>R. sublist (lower R) (lower message)) (map capitalize REGIONS)"
proof -
  have "distinct (map capitalize REGIONS)"
    by (simp add: capitalize_REGIONS)
  then have "distinct (map capitalize (filter (\<lambda>r. py_in r (lower message)) REGIONS))"
    by (rule distinct_map_filter)
  then show ?thesis
    by (simp add: extract_regions_def Let_def unique_loop_distinct found_regions)
qed

text \<open>
  C6. \<^verbatim>\<open>extract_regions\<close> returns the capitalised names of the fixed list, in the
  order of that list, keeping a name exactly when some substring of the message equals
  it up to case; the result has no duplicates. A message that names south before north
  gives the same list as one that names north first.
\<close>

theorem extract_regions_fixed_order:
  "extract_regions message
     = filter (\<lambda>R. \<exists>u. sublist u message \<and> lower u = lower R) (map capitalize REGIONS)
   \<and> map capitalize REGIONS = [''North'', ''South'', ''East'', ''West'']
   \<and> distinct (extract_regions message)
   \<and> extract_regions ''Sales in north and South'' = [''North'', ''South'']
   \<and> extract_regions ''south beats North'' = [''North'', ''South'']"
proof (intro conjI)
  show "extract_regions message
     = filter (\<lambda>R. \<exists>u. sublist u message \<and> lower u = lower R) (map capitalize REGIONS)"
    by (simp add: extract_regions_eq sublist_lower)
  show "map capitalize REGIONS = [''North'', ''South'', ''East'', ''West'']"
    by (rule capitalize_REGIONS)
  show "distinct (extract_regions message)"
    by (simp add: extract_regions_eq capitalize_REGIONS)
  show "extract_regions ''Sales in north and South'' = [''North'', ''South'']"
    by code_simp
  show "extract_regions ''south beats North'' = [''North'', ''South'']"
    by code_simp
qed

subsection \<open>Years\<close>

lemma is_digit_not_space: "is_digit c \<Longrightarrow> \<not> is_space c"
  by (auto simp: is_digit_def is_space_def digits_def)

lemma year_match_chars:
  assumes "year_match_at s p" and "k < 4"
  shows "is_digit (s ! (p + k))"
proof -
  have "k = 0 \<or> k = 1 \<or> k = 2 \<or> k = 3" using assms(2) by arith
  moreover have "is_digit CHR ''2''" "is_digit CHR ''0''"
    by (simp_all add: is_digit_def digits_def)
  ultimately show ?thesis
    using assms(1) by (auto simp: year_match_at_def numeral_2_eq_2 numeral_3_eq_3)
qed

lemma year_match_no_overlap:
  assumes "year_match_at s p" and "0 < k" and "k < 4"
  shows "\<not> year_match_at s (p + k)"
proof -
  have len: "p + 4 \<le> length s" using assms(1) by (simp add: year_match_at_def)
  obtain j where j: "k = Suc j" "j < 3" using assms(2,3) by (cases k) auto
  have "j < 4" using j by simp
  then have a: "is_word (s ! (p + j))"
    using year_match_chars[OF assms(1)] by (simp add: is_digit_is_word)
  have b: "is_word (s ! (p + k))"
    using year_match_chars[OF assms(1) assms(3)] by (simp add: is_digit_is_word)
  have "p + k - 1 = p + j" using j by simp
  with a b have "\<not> word_boundary s (p + k)"
    using len j by (simp add: word_boundary_def)
  then show ?thesis by (simp add: year_match_at_def)
qed

lemma findall_year_set:
  "set (findall_year s p) = {take 4 (drop q s) | q. p \<le> q \<and> year_match_at s q}"
proof (induction s p rule: findall_year.induct)
  case (1 s p)
  show ?case
  proof (cases "length s < p")
    case True
    then have "\<not> year_match_at s q" if "p \<le> q" for q
      using that by (simp add: year_match_at_def)
    with True show ?thesis by (auto simp: findall_year.simps[of s p])
  next
    case False
    show ?thesis
    proof (cases "year_match_at s p")
      case True
      have skip: "p \<le> q \<and> year_match_at s q \<longleftrightarrow> q = p \<or> (p + 4 \<le> q \<and> year_match_at s q)" for q
      proof (cases "p < q \<and> q < p + 4")
        case True
        then have "q = p + (q - p)" "0 < q - p" "q - p < 4"
          by arith+
        then obtain k where "q = p + k" "0 < k" "k < 4"
          by blast
        with year_match_no_overlap[OF \<open>year_match_at s p\<close>] True show ?thesis by auto
      next
        case False
        with \<open>year_match_at s p\<close> show ?thesis by auto
      qed
      have "set (findall_year s p) = insert (take 4 (drop p s)) (set (findall_year s (p + 4)))"
        using True False by (simp add: findall_year.simps[of s p])
      also have "\<dots> = insert (take 4 (drop p s)) {take 4 (drop q s) | q. p + 4 \<le> q \<and> year_match_at s q}"
        using "1.IH"(1)[OF False True] by simp
      also have "\<dots> = {take 4 (drop q s) | q. p \<le> q \<and> year_match_at s q}"
        by (auto simp: skip)
      finally show ?thesis .
    next
      case nomatch: False
      have "p \<le> q \<and> year_match_at s q \<longleftrightarrow> p + 1 \<le> q \<and> year_match_at s q" for q
        using nomatch by (cases "q = p") auto
      moreover have "set (findall_year s p) = set (findall_year s (p + 1))"
        using nomatch False by (simp add: findall_year.simps[of s p])
      ultimately show ?thesis
        using "1.IH"(2)[OF False nomatch] by simp
    qed
  qed
qed

lemma year_group:
  assumes "year_match_at s q"
  shows "length (take 4 (drop q s)) = 4" and "list_all is_digit (take 4 (drop q s))"
proof -
  have len: "q + 4 \<le> length s" using assms by (simp add: year_match_at_def)
  then show "length (take 4 (drop q s)) = 4" by simp
  have "is_digit (take 4 (drop q s) ! k)" if "k < 4" for k
    using that len year_match_chars[OF assms that] by simp
  then show "list_all is_digit (take 4 (drop q s))"
    using len by (simp add: list_all_length)
qed

lemma int_all_digit_groups:
  "list_all (\<lambda>g. g \<noteq> [] \<and> list_all is_digit g \<and> length g \<le> 640) gs
     \<Longrightarrow> int_all max_str_digits gs = Inr (map decimal gs)"
  by (induction gs) (simp_all add: py_int_def)

lemma extract_years_eq:
  "extract_years max_str_digits message = Inr (sort (remdups (map decimal (findall_year message 0))))"
proof -
  have "g \<noteq> [] \<and> list_all is_digit g \<and> length g \<le> 640" if "g \<in> set (findall_year message 0)" for g
  proof -
    from that obtain q where "g = take 4 (drop q message)" "year_match_at message q"
      by (auto simp: findall_year_set)
    with year_group[of message q] show ?thesis by auto
  qed
  then have "int_all max_str_digits (findall_year message 0) = Inr (map decimal (findall_year message 0))"
    by (intro int_all_digit_groups) (simp add: list_all_iff)
  then show ?thesis by (simp add: extract_years_def)
qed

text \<open>
  C7. \<^verbatim>\<open>extract_years\<close> raises nothing and returns, sorted ascending and without
  duplicates, exactly the values of the word-bounded tokens \<^verbatim>\<open>20\d\d\<close> of the message;
  the scan of \<^verbatim>\<open>findall\<close>, which resumes after each match, misses none of them.
\<close>

theorem extract_years_sorted_set:
  "(\<exists>ys. extract_years max_str_digits message = Inr ys
      \<and> sorted ys \<and> distinct ys
      \<and> set ys = {y. \<exists>tok. year_token message tok \<and> y = decimal tok})
   \<and> extract_years max_str_digits ''compare 2023 and 2022 and 2023'' = Inr [2022, 2023]"
proof
  show "\<exists>ys. extract_years max_str_digits message = Inr ys
      \<and> sorted ys \<and> distinct ys
      \<and> set ys = {y. \<exists>tok. year_token message tok \<and> y = decimal tok}"
    by (auto simp: extract_years_eq findall_year_set year_token_iff)
  show "extract_years max_str_digits ''compare 2023 and 2022 and 2023'' = Inr [2022, 2023]"
    unfolding extract_years_eq by code_simp
qed

subsection \<open>Top-N\<close>

lemma match_top_here_digits:
  "match_top_here s = Some g \<Longrightarrow> g \<noteq> [] \<and> list_all is_digit g"
  by (auto simp: match_top_here_def Let_def list_all_iff split: if_splits dest: set_takeWhileD)

lemma re_search_top_digits:
  "re_search_top s = Some g \<Longrightarrow> g \<noteq> [] \<and> list_all is_digit g"
  by (induction s) (auto split: option.splits dest: match_top_here_digits)

lemma match_top_here_iff:
  "match_top_here s \<noteq> None \<longleftrightarrow>
     (\<exists>ws ds post. s = ''top'' @ ws @ ds @ post
        \<and> ws \<noteq> [] \<and> list_all is_space ws \<and> ds \<noteq> [] \<and> list_all is_digit ds)"
proof
  assume m: "match_top_here s \<noteq> None"
  then have pre: "prefix ''top'' s"
    by (auto simp: match_top_here_def split: if_splits)
  define rest where "rest = drop 3 s"
  define ws where "ws = takeWhile is_space rest"
  define ds where "ds = takeWhile is_digit (dropWhile is_space rest)"
  define post where "post = dropWhile is_digit (dropWhile is_space rest)"
  have "s = ''top'' @ rest"
    using pre by (auto simp: prefix_def rest_def)
  moreover have "rest = ws @ ds @ post"
    by (simp add: ws_def ds_def post_def)
  moreover have "ws \<noteq> []" "ds \<noteq> []"
    using m pre by (auto simp: match_top_here_def Let_def ws_def ds_def rest_def split: if_splits)
  moreover have "list_all is_space ws" "list_all is_digit ds"
    by (auto simp: ws_def ds_def list_all_iff dest: set_takeWhileD)
  ultimately show "\<exists>ws ds post. s = ''top'' @ ws @ ds @ post
        \<and> ws \<noteq> [] \<and> list_all is_space ws \<and> ds \<noteq> [] \<and> list_all is_digit ds"
    by blast
next
  assume "\<exists>ws ds post. s = ''top'' @ ws @ ds @ post
        \<and> ws \<noteq> [] \<and> list_all is_space ws \<and> ds \<noteq> [] \<and> list_all is_digit ds"
  then obtain ws ds post where s: "s = ''top'' @ ws @ ds @ post"
    and ws: "ws \<noteq> []" "list_all is_space ws" and ds: "ds \<noteq> []" "list_all is_digit ds"
    by blast
  from ds obtain d ds' where d: "ds = d # ds'" "is_digit d"
    by (cases ds) auto
  then have nsp: "\<not> is_space d" by (simp add: is_digit_not_space)
  have tw: "takeWhile is_space (ws @ ds @ post) = ws"
    using ws(2) d(1) nsp by (simp add: takeWhile_append2 list_all_iff)
  have dw: "dropWhile is_space (ws @ ds @ post) = ds @ post"
    using ws(2) d(1) nsp by (simp add: dropWhile_append2 list_all_iff)
  have td: "takeWhile is_digit (ds @ post) \<noteq> []"
    using d by simp
  have "drop 3 s = ws @ ds @ post" "prefix ''top'' s"
    by (simp_all add: s)
  then show "match_top_here s \<noteq> None"
    using tw dw td ws(1) by (simp add: match_top_here_def Let_def)
qed

lemma top_pattern_Nil: "\<not> top_pattern []"
  by (simp add: top_pattern_def)

lemma top_pattern_Cons:
  "top_pattern (c # cs) \<longleftrightarrow> match_top_here (c # cs) \<noteq> None \<or> top_pattern cs"
proof -
  have "top_pattern (c # cs) \<longleftrightarrow>
      (\<exists>pre ws ds post. c # cs = pre @ ''top'' @ ws @ ds @ post
        \<and> ws \<noteq> [] \<and> list_all is_space ws \<and> ds \<noteq> [] \<and> list_all is_digit ds)"
    by (simp only: top_pattern_def)
  also have "\<dots> \<longleftrightarrow>
      (\<exists>ws ds post. c # cs = ''top'' @ ws @ ds @ post
        \<and> ws \<noteq> [] \<and> list_all is_space ws \<and> ds \<noteq> [] \<and> list_all is_digit ds)
      \<or> (\<exists>pre' ws ds post. cs = pre' @ ''top'' @ ws @ ds @ post
        \<and> ws \<noteq> [] \<and> list_all is_space ws \<and> ds \<noteq> [] \<and> list_all is_digit ds)"
    (is "?L \<longleftrightarrow> ?A \<or> ?B")
  proof
    assume ?L
    then obtain pre ws ds post where e: "c # cs = pre @ ''top'' @ ws @ ds @ post"
      and r: "ws \<noteq> []" "list_all is_space ws" "ds \<noteq> []" "list_all is_digit ds"
      by blast
    show "?A \<or> ?B"
    proof (cases pre)
      case Nil
      with e r have ?A by auto
      then show ?thesis ..
    next
      case (Cons a pre')
      with e have "cs = pre' @ ''top'' @ ws @ ds @ post" by simp
      with r have ?B by blast
      then show ?thesis ..
    qed
  next
    assume "?A \<or> ?B"
    then show ?L
    proof
      assume ?A
      then obtain ws ds post where "c # cs = [] @ ''top'' @ ws @ ds @ post"
        "ws \<noteq> []" "list_all is_space ws" "ds \<noteq> []" "list_all is_digit ds"
        by auto
      then show ?L by blast
    next
      assume ?B
      then obtain pre' ws ds post where "c # cs = (c # pre') @ ''top'' @ ws @ ds @ post"
        "ws \<noteq> []" "list_all is_space ws" "ds \<noteq> []" "list_all is_digit ds"
        by auto
      then show ?L by blast
    qed
  qed
  finally show ?thesis
    by (simp only: match_top_here_iff top_pattern_def)
qed

lemma re_search_top_None: "re_search_top s = None \<longleftrightarrow> \<not> top_pattern s"
  by (induction s) (auto simp: top_pattern_Nil top_pattern_Cons split: option.splits)

lemma extract_top_n_eq:
  "extract_top_n max_str_digits message =
     (case re_search_top (lower message) of
        None \<Rightarrow> None
      | Some g \<Rightarrow> if 640 < length g \<and> 0 < max_str_digits \<and> max_str_digits < length g then None
                  else Some (max 1 (decimal g)))"
  by (auto simp: extract_top_n_def py_int_def split: option.splits dest: re_search_top_digits)
lemma lower_char_7: "lower_char CHR ''7'' = CHR ''7''"
  by code_simp

lemma long_group:
  assumes "0 < n"
  shows "re_search_top (lower (''top '' @ replicate n CHR ''7'')) = Some (replicate n CHR ''7'')"
proof -
  have l: "lower (''top '' @ replicate n CHR ''7'') = ''top '' @ replicate n CHR ''7''"
    unfolding lower_def map_append map_replicate lower_char_7 by code_simp
  have sp: "is_space CHR '' ''" "\<not> is_space CHR ''7''" "is_digit CHR ''7''"
    by (simp_all add: is_space_def is_digit_def digits_def)
  have "match_top_here (''top '' @ replicate n CHR ''7'') = Some (replicate n CHR ''7'')"
    using sp assms by (simp add: match_top_here_def Let_def takeWhile_replicate dropWhile_replicate)
  then show ?thesis
    unfolding l by simp
qed

text \<open>
  C8, as the code has it. \<^verbatim>\<open>extract_top_n\<close> raises nothing. Without a match of
  \<^verbatim>\<open>top\s+(\d+)\<close> in the lowercased message it returns no value. With a match it
  returns the value of the digit group of the first match, raised to 1 when it is 0,
  unless \<^verbatim>\<open>int\<close> refuses the group for its length and the handler of
  \<^verbatim>\<open>ValueError\<close> returns no value. A returned value is at least 1.
\<close>

theorem extract_top_n_clamped:
  "(\<not> top_pattern (lower message) \<longrightarrow> extract_top_n max_str_digits message = None)
   \<and> (top_pattern (lower message) \<longrightarrow>
        (\<exists>g. re_search_top (lower message) = Some g \<and> g \<noteq> [] \<and> list_all is_digit g
           \<and> extract_top_n max_str_digits message =
               (if 640 < length g \<and> 0 < max_str_digits \<and> max_str_digits < length g then None
                else Some (max 1 (decimal g)))))
   \<and> (\<forall>n. extract_top_n max_str_digits message = Some n \<longrightarrow> 1 \<le> n)"
proof (intro conjI impI allI)
  assume "\<not> top_pattern (lower message)"
  then show "extract_top_n max_str_digits message = None"
    by (simp add: extract_top_n_eq re_search_top_None[symmetric])
next
  assume "top_pattern (lower message)"
  then obtain g where g: "re_search_top (lower message) = Some g"
    using re_search_top_None[of "lower message"] by auto
  with re_search_top_digits[OF g]
  show "\<exists>g. re_search_top (lower message) = Some g \<and> g \<noteq> [] \<and> list_all is_digit g
           \<and> extract_top_n max_str_digits message =
               (if 640 < length g \<and> 0 < max_str_digits \<and> max_str_digits < length g then None
                else Some (max 1 (decimal g)))"
    by (simp add: extract_top_n_eq)
next
  fix n assume "extract_top_n max_str_digits message = Some n"
  then show "1 \<le> n"
    by (auto simp: extract_top_n_eq split: option.splits if_splits)
qed

theorem extract_top_n_clamped_witness:
  "top_pattern (lower ''show me the Top 3 products'')
   \<and> extract_top_n 4300 ''show me the Top 3 products'' = Some 3
   \<and> extract_top_n 4300 ''top 0'' = Some 1
   \<and> \<not> top_pattern (lower ''top products'')
   \<and> extract_top_n 4300 ''top products'' = None"
proof -
  have a: "re_search_top (lower ''show me the Top 3 products'') = Some ''3''"
    by code_simp
  then have p: "top_pattern (lower ''show me the Top 3 products'')"
    using re_search_top_None[of "lower ''show me the Top 3 products''"] by simp
  have b: "re_search_top (lower ''top products'') = None"
    by code_simp
  then have q: "\<not> top_pattern (lower ''top products'')"
    by (simp add: re_search_top_None)
  have d: "decimal ''3'' = 3" by code_simp
  have "extract_top_n 4300 ''show me the Top 3 products'' = Some 3"
    using extract_top_n_clamped[of "''show me the Top 3 products''" 4300] p a d by simp
  moreover have "extract_top_n 4300 ''top products'' = None"
    using extract_top_n_clamped[of "''top products''" 4300] q by simp
  moreover have "extract_top_n 4300 ''top 0'' = Some 1"
    by code_simp
  ultimately show ?thesis using p q by simp
qed

text \<open>
  A match does not always yield a number: under the default limit of 4300 digits a
  message with \<^verbatim>\<open>top\<close>, a blank and 4301 digits matches the pattern, \<^verbatim>\<open>int\<close> refuses
  the group, and the function returns no value.
\<close>

theorem extract_top_n_long_group_counterexample:
  "top_pattern (lower (''top '' @ replicate 4301 CHR ''7''))
   \<and> extract_top_n 4300 (''top '' @ replicate 4301 CHR ''7'') = None"
proof -
  have g: "re_search_top (lower (''top '' @ replicate 4301 CHR ''7'')) = Some (replicate 4301 CHR ''7'')"
    by (rule long_group) simp
  then have "top_pattern (lower (''top '' @ replicate 4301 CHR ''7''))"
    using re_search_top_None[of "lower (''top '' @ replicate 4301 CHR ''7'')"] by simp
  moreover have "extract_top_n 4300 (''top '' @ replicate 4301 CHR ''7'') = None"
    by (simp only: extract_top_n_eq g option.case length_replicate) simp
  ultimately show ?thesis ..
qed

section \<open>Properties of the aggregators\<close>

subsection \<open>Grouping, sorting and truncating\<close>

lemma groupby_sum_eq:
  "groupby_sum key rows
     = map (\<lambda>k. (k, group_total key rows k)) (sorted_list_of_set (key ` set rows))"
  by (simp add: groupby_sum_def group_total_def sorted_list_of_set_sort_remdups[symmetric])

lemma groupby_sum_keys:
  "map fst (groupby_sum key rows) = sorted_list_of_set (key ` set rows)"
  by (simp add: groupby_sum_eq comp_def)


lemma groupby_sum_mset:
  "mset (groupby_sum key rows)
     = image_mset (\<lambda>k. (k, group_total key rows k)) (mset_set (key ` set rows))"
proof -
  have "mset (sorted_list_of_set (key ` set rows)) = mset_set (key ` set rows)"
    using mset_set_set[of "sorted_list_of_set (key ` set rows)"] by simp
  then show ?thesis
    by (simp add: groupby_sum_eq)
qed

lemma groupby_sum_length: "length (groupby_sum key rows) = card (key ` set rows)"
  by (simp add: groupby_sum_eq)

lemma sort_key_groupby_sum: "sort_key fst (groupby_sum key rows) = groupby_sum key rows"
  by (rule sort_key_id_if_sorted) (simp add: groupby_sum_keys)

lemma head_nonneg: "0 \<le> n \<Longrightarrow> head n xs = take (nat n) xs"
  by (simp add: head_def)


lemma perm_map_nth:
  assumes "mset p = mset [0..<length ys]"
  shows "mset (map ((!) ys) p) = mset ys"
proof -
  have "mset (map ((!) ys) p) = image_mset ((!) ys) (mset p)"
    by simp
  also have "\<dots> = image_mset ((!) ys) (mset [0..<length ys])"
    by (simp only: assms)
  also have "\<dots> = mset (map ((!) ys) [0..<length ys])"
    by (simp only: mset_map)
  also have "\<dots> = mset ys"
    by (simp only: map_nth)
  finally show ?thesis .
qed

lemma argsort_perm:
  assumes "argsort_contract argsort"
  shows "mset (argsort vs) = mset [0..<length vs]" and "sorted (map ((!) vs) (argsort vs))"
  using assms by (simp_all add: argsort_contract_def)

lemma sort_values_desc_eq:
  "sort_values_desc argsort xs
     = map ((!) xs) (rev (map ((!) (rev [0..<length xs])) (argsort (rev (map snd xs)))))"
  by (simp add: sort_values_desc_def Let_def)

lemma sort_values_desc_mset:
  assumes "argsort_contract argsort"
  shows "mset (sort_values_desc argsort xs) = mset xs"
proof -
  define p where "p = argsort (rev (map snd xs))"
  define q where "q = map ((!) (rev [0..<length xs])) p"
  have "mset p = mset [0..<length (rev [0..<length xs])]"
    using argsort_perm(1)[OF assms, of "rev (map snd xs)"] by (simp add: p_def)
  then have "mset q = mset (rev [0..<length xs])"
    unfolding q_def by (rule perm_map_nth)
  then have "mset (rev q) = mset [0..<length xs]"
    by simp
  then have "mset (map ((!) xs) (rev q)) = mset xs"
    by (rule perm_map_nth)
  then show ?thesis
    by (simp only: sort_values_desc_eq p_def q_def)
qed

lemma sort_values_desc_sorted:
  assumes "argsort_contract argsort"
  shows "sorted_wrt (\<lambda>a b. snd b \<le> snd a) (sort_values_desc argsort xs)"
proof -
  define n where "n = length xs"
  define p where "p = argsort (rev (map snd xs))"
  have perm: "mset p = mset [0..<n]"
    using argsort_perm(1)[OF assms, of "rev (map snd xs)"] by (simp add: p_def n_def)
  have in_range: "j < n" if "j \<in> set p" for j
  proof -
    have "set p = set [0..<n]" using perm by (rule mset_eq_setD)
    with that show ?thesis by simp
  qed
  have pos: "snd (xs ! (rev [0..<n] ! j)) = rev (map snd xs) ! j" if "j \<in> set p" for j
    using in_range[OF that] by (simp add: rev_nth n_def)
  have eq: "map (\<lambda>j. snd (xs ! (rev [0..<n] ! j))) p = map ((!) (rev (map snd xs))) p"
    by (rule map_cong) (simp_all add: pos)
  have "sorted (map ((!) (rev (map snd xs))) p)"
    unfolding p_def by (rule argsort_perm(2)[OF assms])
  then have "sorted (map (\<lambda>j. snd (xs ! (rev [0..<n] ! j))) p)"
    by (simp only: eq)
  then have "sorted_wrt (\<lambda>a b. snd b \<le> snd a) (map ((!) xs) (rev (map ((!) (rev [0..<n])) p)))"
    by (simp add: sorted_wrt_map sorted_wrt_rev)
  then show ?thesis
    by (simp only: sort_values_desc_eq p_def n_def)
qed


lemma stable_argsort_contract: "argsort_contract stable_argsort"
proof -
  have "mset (stable_argsort vs) = mset [0..<length vs]" for vs
  proof -
    have "mset (stable_argsort vs) = image_mset snd (mset (zip vs [0..<length vs]))"
      by (simp add: stable_argsort_def)
    also have "\<dots> = mset (map snd (zip vs [0..<length vs]))"
      by (simp only: mset_map)
    finally show ?thesis by (simp del: mset_upt)
  qed
  moreover have "sorted (map ((!) vs) (stable_argsort vs))" for vs
  proof -
    have "vs ! snd z = fst z" if "z \<in> set (sort_key fst (zip vs [0..<length vs]))" for z
    proof -
      from that have "(fst z, snd z) \<in> set (zip vs [0..<length vs])" by simp
      then show ?thesis by (auto simp: in_set_zip)
    qed
    then have "map ((!) vs) (stable_argsort vs) = map fst (sort_key fst (zip vs [0..<length vs]))"
      by (simp add: stable_argsort_def)
    then show ?thesis by simp
  qed
  ultimately show ?thesis
    by (simp only: argsort_contract_def) blast
qed


lemma round_half_even_near:
  "\<bar>of_int (round_half_even y) - y\<bar> \<le> 1 / 2"
  "\<bar>of_int (round_half_even y) - y\<bar> = 1 / 2 \<Longrightarrow> even (round_half_even y)"
proof -
  define f where "f = \<lfloor>y\<rfloor>"
  define d where "d = y - of_int f"
  have d: "0 \<le> d" "d < 1"
    unfolding d_def f_def by linarith+
  have y: "y = of_int f + d"
    by (simp add: d_def)
  have r: "round_half_even y
      = (if d < 1 / 2 then f else if 1 / 2 < d then f + 1 else if even f then f else f + 1)"
    by (simp add: round_half_even_def Let_def f_def d_def)
  show "\<bar>of_int (round_half_even y) - y\<bar> \<le> 1 / 2"
    using d by (simp only: r) (auto simp: y)
  show "even (round_half_even y)" if "\<bar>of_int (round_half_even y) - y\<bar> = 1 / 2"
    using that d by (simp only: r) (auto simp: y split: if_splits)
qed

lemma round2_rounded: "rounded_to_2_decimals x (round2 x)"
proof -
  define r where "r = round_half_even (x * 100)"
  have v: "round2 x * 100 = of_int r"
    by (simp add: round2_def r_def)
  have dist: "\<bar>round2 x - x\<bar> = \<bar>of_int r - x * 100\<bar> / 100"
    by (simp add: round2_def r_def abs_if field_simps)
  have "\<bar>of_int r - x * 100\<bar> \<le> 1 / 2"
    unfolding r_def by (rule round_half_even_near(1))
  then have a: "\<bar>round2 x - x\<bar> \<le> 1 / 200"
    by (simp add: dist)
  have b: "even r" if "\<bar>round2 x - x\<bar> = 1 / 200"
  proof -
    from that have "\<bar>of_int r - x * 100\<bar> = 1 / 2"
      by (simp add: dist)
    then show ?thesis
      unfolding r_def by (rule round_half_even_near(2))
  qed
  show ?thesis
    using a b by (simp add: rounded_to_2_decimals_def Let_def v)
qed

lemma rounded_to_2_decimals_unique:
  assumes "rounded_to_2_decimals x v" and "rounded_to_2_decimals x w"
  shows "v = w"
proof -
  define k where "k = \<lfloor>v * 100\<rfloor>"
  define j where "j = \<lfloor>w * 100\<rfloor>"
  have "of_int k = v * 100 \<and> \<bar>v - x\<bar> \<le> 1 / 200 \<and> (\<bar>v - x\<bar> = 1 / 200 \<longrightarrow> even k)"
    using assms(1) unfolding rounded_to_2_decimals_def Let_def k_def .
  then have kv: "v = of_int k / 100" and kd: "\<bar>v - x\<bar> \<le> 1 / 200"
    and ke: "\<bar>v - x\<bar> = 1 / 200 \<Longrightarrow> even k"
    by simp_all
  have "of_int j = w * 100 \<and> \<bar>w - x\<bar> \<le> 1 / 200 \<and> (\<bar>w - x\<bar> = 1 / 200 \<longrightarrow> even j)"
    using assms(2) unfolding rounded_to_2_decimals_def Let_def j_def .
  then have jw: "w = of_int j / 100" and jd: "\<bar>w - x\<bar> \<le> 1 / 200"
    and je: "\<bar>w - x\<bar> = 1 / 200 \<Longrightarrow> even j"
    by simp_all
  have "\<bar>v - w\<bar> \<le> 1 / 100"
    using kd jd by linarith
  then have "\<bar>(of_int k :: rat) - of_int j\<bar> \<le> 1"
    by (simp add: kv jw abs_if field_simps split: if_splits)
  then have "\<bar>(of_int (k - j) :: rat)\<bar> \<le> of_int 1"
    by simp
  then have close: "\<bar>k - j\<bar> \<le> 1"
    by (simp only: of_int_abs[symmetric] of_int_le_iff)
  have "k = j"
  proof (rule ccontr)
    assume ne: "k \<noteq> j"
    with close have c: "k = j + 1 \<or> j = k + 1"
      by linarith
    then have "\<bar>v - w\<bar> = 1 / 100"
      by (auto simp: kv jw field_simps)
    with kd jd have "\<bar>v - x\<bar> = 1 / 200" "\<bar>w - x\<bar> = 1 / 200"
      by linarith+
    then have "even k" "even j"
      using ke je by blast+
    with c show False
      by auto
  qed
  then show ?thesis
    by (simp add: kv jw)
qed

lemma head_take: "head n xs = take (if 0 \<le> n then nat n else length xs - nat (- n)) xs"
  by (simp add: head_def)

lemma sort_values_desc_length:
  assumes "argsort_contract argsort"
  shows "length (sort_values_desc argsort xs) = length xs"
  using sort_values_desc_mset[OF assms, of xs] by (rule mset_eq_length)

lemma filter_all_years:
  "filter_data df (Some (sort (remdups (map col_year df)))) rf = filter_data df None rf"
proof -
  have "filter (\<lambda>r. col_year r \<in> set (sort (remdups (map col_year df)))) df = df"
    by (rule filter_True) simp
  then show ?thesis
    by (simp add: filter_data_def Let_def)
qed

subsection \<open>Top-N products\<close>

text \<open>
  C2, as the code has it. For every data set, every \<open>n \<ge> 1\<close> and every year and
  region filter, whatever permutation the sorting kind returns for equal sums:
  the table of \<^verbatim>\<open>top_n_products\<close> is the first part of a list that holds one entry per
  distinct product of the filtered rows, with the sum of that product's sales, in
  descending order of the sums; its length is the smaller of \<open>n\<close> and the number of
  distinct products, so it is never padded. Nothing is said of the order among equal
  sums.
\<close>

theorem top_n_products_table:
  assumes "argsort_contract argsort" and "1 \<le> n"
  shows "\<exists>t rest.
      ar_table (top_n_products argsort df n years regions) = ProductTable t
    \<and> mset (t @ rest) =
        image_mset (\<lambda>p. (p, group_total col_product (filter_data df years regions) p))
          (mset_set (col_product ` set (filter_data df years regions)))
    \<and> sorted_wrt (\<lambda>a b. snd b \<le> snd a) (t @ rest)
    \<and> length t = min (nat n) (card (col_product ` set (filter_data df years regions)))"
proof -
  define rows where "rows = filter_data df years regions"
  define s where "s = sort_values_desc argsort (groupby_sum col_product rows)"
  have tab: "ar_table (top_n_products argsort df n years regions) = ProductTable (take (nat n) s)"
    using assms(2) by (simp add: top_n_products_def Let_def head_nonneg s_def rows_def)
  have m: "mset s = image_mset (\<lambda>p. (p, group_total col_product rows p))
      (mset_set (col_product ` set rows))"
    by (simp add: s_def sort_values_desc_mset[OF assms(1)] groupby_sum_mset)
  have "mset s = mset (groupby_sum col_product rows)"
    by (simp add: s_def sort_values_desc_mset[OF assms(1)])
  then have "length s = length (groupby_sum col_product rows)"
    by (rule mset_eq_length)
  then have len: "length s = card (col_product ` set rows)"
    by (simp add: groupby_sum_length)
  have srt: "sorted_wrt (\<lambda>a b. snd b \<le> snd a) s"
    unfolding s_def by (rule sort_values_desc_sorted[OF assms(1)])
  have "ar_table (top_n_products argsort df n years regions) = ProductTable (take (nat n) s)
    \<and> mset (take (nat n) s @ drop (nat n) s) =
        image_mset (\<lambda>p. (p, group_total col_product rows p)) (mset_set (col_product ` set rows))
    \<and> sorted_wrt (\<lambda>a b. snd b \<le> snd a) (take (nat n) s @ drop (nat n) s)
    \<and> length (take (nat n) s) = min (nat n) (card (col_product ` set rows))"
    using tab m srt len by (simp add: min.commute)
  then show ?thesis
    unfolding rows_def by blast
qed

text \<open>Three distinct products and \<open>n = 5\<close> give three rows.\<close>

theorem top_n_products_table_witness:
  "argsort_contract stable_argsort
   \<and> (\<exists>t. ar_table (top_n_products stable_argsort sample_df 5 None None) = ProductTable t
          \<and> length t = 3)"
proof -
  have c: "card (col_product ` set (filter_data sample_df None None)) = 3"
    by code_simp
  have "(1::int) \<le> 5" by simp
  from top_n_products_table[OF stable_argsort_contract this, of sample_df None None]
  obtain t rest where
    "ar_table (top_n_products stable_argsort sample_df 5 None None) = ProductTable t"
    "length t = min (nat 5) (card (col_product ` set (filter_data sample_df None None)))"
    by blast
  then have "ar_table (top_n_products stable_argsort sample_df 5 None None) = ProductTable t
      \<and> length t = 3"
    by (simp add: c)
  then show ?thesis
    using stable_argsort_contract by blast
qed

text \<open>
  Equal sums are not listed in the order the products first occur in the rows:
  \<^verbatim>\<open>groupby\<close> hands the groups over in ascending product name, and a stable kind
  keeps that order. Tablet occurs before Laptop in the rows and is listed after it.
\<close>

theorem top_n_products_tie_counterexample:
  "ar_table (top_n_products stable_argsort tie_df 5 None None)
     = ProductTable [(''Laptop'', 10), (''Tablet'', 10)]
   \<and> \<not> ties_first_encountered (filter_data tie_df None None)
         [(''Laptop'', 10), (''Tablet'', 10)]"
  by code_simp

subsection \<open>Year comparison\<close>

text \<open>
  C3. When fewer than two years are requested (none, an empty list or a single year),
  \<^verbatim>\<open>year_comparison\<close> reports and uses all distinct years of the data set in
  ascending order, and its table lists, in ascending order of the year, each year that
  occurs in the rows of the chosen region (all rows without a region) with the sum of
  its sales.
\<close>

theorem year_comparison_fallback:
  assumes "length (or_empty years) < 2"
  shows "ar_years (year_comparison df years region) = sorted_list_of_set (col_year ` set df)
    \<and> ar_table (year_comparison df years region) =
        YearTable
          (map (\<lambda>y. (y, group_total col_year
                          (filter_data df None (if given region then Some [the region] else None)) y))
             (sorted_list_of_set
                (col_year ` set (filter_data df None
                                   (if given region then Some [the region] else None)))))"
proof -
  define rf where "rf = (if given region then Some [the region] else None)"
  have ys: "year_comparison_years df years = sort (remdups (map col_year df))"
    using assms by (simp add: year_comparison_years_def)
  have data: "filter_data df (Some (year_comparison_years df years)) rf = filter_data df None rf"
    by (simp only: ys filter_all_years)
  have "ar_years (year_comparison df years region) = year_comparison_years df years"
    by (simp add: year_comparison_def Let_def)
  also have "\<dots> = sorted_list_of_set (col_year ` set df)"
    by (simp add: ys sorted_list_of_set_sort_remdups[symmetric])
  finally have a: "ar_years (year_comparison df years region)
      = sorted_list_of_set (col_year ` set df)" .
  have "ar_table (year_comparison df years region)
      = YearTable (sort_key fst
          (groupby_sum col_year (filter_data df (Some (year_comparison_years df years)) rf)))"
    by (simp add: year_comparison_def Let_def rf_def)
  also have "\<dots> = YearTable (groupby_sum col_year (filter_data df None rf))"
    by (simp only: data sort_key_groupby_sum)
  finally have b: "ar_table (year_comparison df years region)
      = YearTable (map (\<lambda>y. (y, group_total col_year (filter_data df None rf) y))
          (sorted_list_of_set (col_year ` set (filter_data df None rf))))"
    by (simp only: groupby_sum_eq)
  show ?thesis
    using a b unfolding rf_def by (rule conjI)
qed

text \<open>One requested year on data spanning 2021 to 2024 gives all four years.\<close>

theorem year_comparison_fallback_witness:
  "length (or_empty (Some [2023::int])) < 2
   \<and> ar_years (year_comparison sample_df (Some [2023]) None) = [2021, 2022, 2023, 2024]
   \<and> ar_table (year_comparison sample_df (Some [2023]) None)
       = YearTable [(2021, 1 / 8), (2022, 10), (2023, 10), (2024, 5 / 2)]"
proof -
  have h: "length (or_empty (Some [2023::int])) < 2" by simp
  have e: "sorted_list_of_set (col_year ` set sample_df) = [2021, 2022, 2023, 2024]"
    by code_simp
  have t: "map (\<lambda>y. (y, group_total col_year
                          (filter_data sample_df None (if given None then Some [the None] else None)) y))
             (sorted_list_of_set
                (col_year ` set (filter_data sample_df None
                                   (if given None then Some [the None] else None))))
         = [(2021, 1 / 8), (2022, 10), (2023, 10), (2024, 5 / 2)]"
    by code_simp
  show ?thesis
    using h year_comparison_fallback[OF h, of sample_df None] e t by simp
qed

subsection \<open>Empty selections\<close>



subsection \<open>Rounding\<close>

text \<open>
  C9. For every data set and every filter, whatever the sorting kind does with equal
  sums: the table of \<^verbatim>\<open>total_sales\<close> has one row, whose value is the sum of the filtered
  rows rounded to two decimals, and no other value is that sum rounded to two
  decimals. The tables of the four grouping aggregators carry the sums of the groups
  as they are: the table of \<^verbatim>\<open>top_n_products\<close> is the first part of a list with one
  entry per product of the filtered rows, holding the product's sum, and for
  \<open>n \<ge> 0\<close> its length is the smaller of \<open>n\<close> and the number of products (for a negative
  \<open>n\<close>, that number less \<open>-n\<close>); the table of \<^verbatim>\<open>sales_by_region\<close> has one entry per
  region, holding the region's sum; the tables of \<^verbatim>\<open>monthly_trend\<close> and
  \<^verbatim>\<open>year_comparison\<close> list every month and every year of the selected rows in
  ascending order, each with its sum. Sums are exact rationals here, not doubles.
\<close>

theorem rounding_only_in_total_sales:
  assumes "argsort_contract argsort"
  shows "(\<exists>v. ar_table (total_sales df years regions) = TotalTable [v]
          \<and> rounded_to_2_decimals
               (sum_list (map col_total_sales (filter_data df years regions))) v
          \<and> (\<forall>w. rounded_to_2_decimals
                    (sum_list (map col_total_sales (filter_data df years regions))) w
                  \<longrightarrow> w = v))
    \<and> (\<exists>t rest. ar_table (top_n_products argsort df n years regions) = ProductTable t
          \<and> mset (t @ rest) =
              image_mset (\<lambda>p. (p, group_total col_product (filter_data df years regions) p))
                (mset_set (col_product ` set (filter_data df years regions)))
          \<and> length t =
              (if 0 \<le> n
               then min (nat n) (card (col_product ` set (filter_data df years regions)))
               else card (col_product ` set (filter_data df years regions)) - nat (- n)))
    \<and> (\<exists>t. ar_table (sales_by_region argsort df years) = RegionTable t
          \<and> mset t =
              image_mset (\<lambda>g. (g, group_total col_region (filter_data df years None) g))
                (mset_set (col_region ` set (filter_data df years None))))
    \<and> ar_table (monthly_trend df year region)
        = MonthTable
            (map (\<lambda>m. (m, group_total col_month (monthly_trend_data df year region) m))
               (sorted_list_of_set (col_month ` set (monthly_trend_data df year region))))
    \<and> ar_table (year_comparison df years region)
        = YearTable
            (map (\<lambda>y. (y, group_total col_year
                           (filter_data df (Some (year_comparison_years df years))
                              (if given region then Some [the region] else None)) y))
               (sorted_list_of_set
                  (col_year ` set (filter_data df (Some (year_comparison_years df years))
                                     (if given region then Some [the region] else None)))))"
proof (intro conjI)
  define total where "total = sum_list (map col_total_sales (filter_data df years regions))"
  have tab: "ar_table (total_sales df years regions) = TotalTable [round2 total]"
    by (simp add: total_sales_def Let_def total_def)
  have r: "rounded_to_2_decimals total (round2 total)"
    by (rule round2_rounded)
  have u: "w = round2 total" if "rounded_to_2_decimals total w" for w
    using that r by (rule rounded_to_2_decimals_unique)
  show "\<exists>v. ar_table (total_sales df years regions) = TotalTable [v]
          \<and> rounded_to_2_decimals
               (sum_list (map col_total_sales (filter_data df years regions))) v
          \<and> (\<forall>w. rounded_to_2_decimals
                    (sum_list (map col_total_sales (filter_data df years regions))) w
                  \<longrightarrow> w = v)"
    using tab r u unfolding total_def by blast
next
  define rows where "rows = filter_data df years regions"
  define s where "s = sort_values_desc argsort (groupby_sum col_product rows)"
  define m where "m = (if 0 \<le> n then nat n else length s - nat (- n))"
  have tab: "ar_table (top_n_products argsort df n years regions) = ProductTable (take m s)"
    by (simp add: top_n_products_def Let_def head_take s_def rows_def m_def)
  have ms: "mset s = image_mset (\<lambda>p. (p, group_total col_product rows p))
      (mset_set (col_product ` set rows))"
    by (simp add: s_def sort_values_desc_mset[OF assms] groupby_sum_mset)
  have len: "length s = card (col_product ` set rows)"
    by (simp add: s_def sort_values_desc_length[OF assms] groupby_sum_length)
  have l: "length (take m s) =
      (if 0 \<le> n then min (nat n) (card (col_product ` set rows))
       else card (col_product ` set rows) - nat (- n))"
    by (simp add: m_def len min.commute)
  have "mset (take m s @ drop m s) = image_mset (\<lambda>p. (p, group_total col_product rows p))
      (mset_set (col_product ` set rows))"
    using ms by simp
  with tab l show "\<exists>t rest. ar_table (top_n_products argsort df n years regions) = ProductTable t
          \<and> mset (t @ rest) =
              image_mset (\<lambda>p. (p, group_total col_product (filter_data df years regions) p))
                (mset_set (col_product ` set (filter_data df years regions)))
          \<and> length t =
              (if 0 \<le> n
               then min (nat n) (card (col_product ` set (filter_data df years regions)))
               else card (col_product ` set (filter_data df years regions)) - nat (- n))"
    unfolding rows_def by blast
next
  let ?s = "sort_values_desc argsort (groupby_sum col_region (filter_data df years None))"
  have "ar_table (sales_by_region argsort df years) = RegionTable ?s"
    by (simp add: sales_by_region_def Let_def)
  moreover have "mset ?s =
      image_mset (\<lambda>g. (g, group_total col_region (filter_data df years None) g))
        (mset_set (col_region ` set (filter_data df years None)))"
    by (simp add: sort_values_desc_mset[OF assms] groupby_sum_mset)
  ultimately show "\<exists>t. ar_table (sales_by_region argsort df years) = RegionTable t
          \<and> mset t =
              image_mset (\<lambda>g. (g, group_total col_region (filter_data df years None) g))
                (mset_set (col_region ` set (filter_data df years None)))"
    by blast
next
  have "ar_table (monthly_trend df year region)
      = MonthTable (groupby_sum col_month (monthly_trend_data df year region))"
    by (simp add: monthly_trend_def Let_def sort_key_groupby_sum)
  then show "ar_table (monthly_trend df year region)
        = MonthTable
            (map (\<lambda>m. (m, group_total col_month (monthly_trend_data df year region) m))
               (sorted_list_of_set (col_month ` set (monthly_trend_data df year region))))"
    by (simp only: groupby_sum_eq)
next
  let ?d = "filter_data df (Some (year_comparison_years df years))
                  (if given region then Some [the region] else None)"
  have "ar_table (year_comparison df years region)
      = YearTable (sort_key fst (groupby_sum col_year ?d))"
    by (simp add: year_comparison_def Let_def)
  then have "ar_table (year_comparison df years region) = YearTable (groupby_sum col_year ?d)"
    by (simp only: sort_key_groupby_sum)
  then show "ar_table (year_comparison df years region)
        = YearTable (map (\<lambda>y. (y, group_total col_year ?d y))
               (sorted_list_of_set (col_year ` set ?d)))"
    by (simp only: groupby_sum_eq)
qed

text \<open>
  Sums of 0.125, 0.375 and 0.128 are reported as 0.12, 0.38 and 0.13 by
  \<^verbatim>\<open>total_sales\<close>: to the nearest hundredth, not cut off, and to the even hundredth
  from halfway. The four grouping tables of the same data hold the eighths and
  thousandths.
\<close>

theorem rounding_only_in_total_sales_witness:
  "argsort_contract stable_argsort
   \<and> ar_table (total_sales cents_df (Some [2021]) None) = TotalTable [12 / 100]
   \<and> ar_table (total_sales cents_df (Some [2022]) None) = TotalTable [38 / 100]
   \<and> ar_table (total_sales cents_df (Some [2023]) None) = TotalTable [13 / 100]
   \<and> ar_table (top_n_products stable_argsort cents_df 5 None None)
       = ProductTable [(''Laptop'', 3 / 8), (''Tablet'', 128 / 1000), (''Desktop'', 1 / 8)]
   \<and> ar_table (sales_by_region stable_argsort cents_df None)
       = RegionTable [(''South'', 3 / 8), (''East'', 128 / 1000), (''North'', 1 / 8)]
   \<and> ar_table (monthly_trend cents_df None None)
       = MonthTable [(1, 3 / 8), (3, 127 / 1000), (4, 1 / 1000), (12, 1 / 8)]
   \<and> ar_table (year_comparison cents_df None None)
       = YearTable [(2021, 1 / 8), (2022, 3 / 8), (2023, 128 / 1000)]"
proof -
  note th = rounding_only_in_total_sales[OF stable_argsort_contract,
      where df=cents_df and regions=None and n=5 and year=None and region=None]
  have s1: "sum_list (map col_total_sales (filter_data cents_df (Some [2021]) None)) = 1 / 8"
    by code_simp
  have s2: "sum_list (map col_total_sales (filter_data cents_df (Some [2022]) None)) = 3 / 8"
    by code_simp
  have s3: "sum_list (map col_total_sales (filter_data cents_df (Some [2023]) None)) = 128 / 1000"
    by code_simp
  have r1: "rounded_to_2_decimals (1 / 8) (12 / 100)"
    by code_simp
  have r2: "rounded_to_2_decimals (3 / 8) (38 / 100)"
    by code_simp
  have r3: "rounded_to_2_decimals (128 / 1000) (13 / 100)"
    by code_simp
  have "ar_table (total_sales cents_df (Some [2021]) None) = TotalTable [12 / 100]"
    using th[where years="Some [2021]"] r1 unfolding s1 by blast
  moreover have "ar_table (total_sales cents_df (Some [2022]) None) = TotalTable [38 / 100]"
    using th[where years="Some [2022]"] r2 unfolding s2 by blast
  moreover have "ar_table (total_sales cents_df (Some [2023]) None) = TotalTable [13 / 100]"
    using th[where years="Some [2023]"] r3 unfolding s3 by blast
  moreover have "ar_table (top_n_products stable_argsort cents_df 5 None None)
       = ProductTable [(''Laptop'', 3 / 8), (''Tablet'', 128 / 1000), (''Desktop'', 1 / 8)]"
    by code_simp
  moreover have "ar_table (sales_by_region stable_argsort cents_df None)
       = RegionTable [(''South'', 3 / 8), (''East'', 128 / 1000), (''North'', 1 / 8)]"
    by code_simp
  moreover have "ar_table (monthly_trend cents_df None None)
       = MonthTable [(1, 3 / 8), (3, 127 / 1000), (4, 1 / 1000), (12, 1 / 8)]"
    by code_simp
  moreover have "ar_table (year_comparison cents_df None None)
       = YearTable [(2021, 1 / 8), (2022, 3 / 8), (2023, 128 / 1000)]"
    by code_simp
  ultimately show ?thesis
    using stable_argsort_contract by (intro conjI)
qed

section \<open>Properties of the router\<close>

text \<open>
  C5. For an intent outside the five mapped ones, \<open>unknown\<close> included,
  \<^verbatim>\<open>handle_query\<close> returns \<open>None\<close>; for each mapped intent it returns the result of
  one aggregator, the one of that intent, called with the parameters of the dispatch
  table. The router is a total function of pure aggregators: it raises nothing, and a
  result carries the intent of the query.
\<close>

theorem handle_query_dispatch:
  "(pq_intent parsed \<notin> set [''total_sales'', ''top_products'', ''sales_by_region'',
                             ''monthly_trend'', ''year_comparison'']
      \<longrightarrow> handle_query argsort message data parsed = None)
   \<and> (pq_intent parsed = ''total_sales'' \<longrightarrow>
        handle_query argsort message data parsed =
          Some (total_sales data
                 (if pq_years parsed = [] then None else Some (pq_years parsed))
                 (if pq_regions parsed = [] then None else Some (pq_regions parsed))))
   \<and> (pq_intent parsed = ''top_products'' \<longrightarrow>
        handle_query argsort message data parsed =
          Some (top_n_products argsort data
                 (case pq_top_n parsed of None \<Rightarrow> 5 | Some k \<Rightarrow> if k = 0 then 5 else k)
                 (if pq_years parsed = [] then None else Some (pq_years parsed))
                 (if pq_regions parsed = [] then None else Some (pq_regions parsed))))
   \<and> (pq_intent parsed = ''sales_by_region'' \<longrightarrow>
        handle_query argsort message data parsed =
          Some (sales_by_region argsort data
                 (if pq_years parsed = [] then None else Some (pq_years parsed))))
   \<and> (pq_intent parsed = ''monthly_trend'' \<longrightarrow>
        handle_query argsort message data parsed =
          Some (monthly_trend data
                 (case pq_years parsed of [] \<Rightarrow> None | y # _ \<Rightarrow> Some y)
                 (case pq_regions parsed of [] \<Rightarrow> None | g # _ \<Rightarrow> Some g)))
   \<and> (pq_intent parsed = ''year_comparison'' \<longrightarrow>
        handle_query argsort message data parsed =
          Some (year_comparison data
                 (if pq_years parsed = [] then None else Some (pq_years parsed))
                 (case pq_regions parsed of [] \<Rightarrow> None | g # _ \<Rightarrow> Some g)))
   \<and> (\<forall>r. handle_query argsort message data parsed = Some r \<longrightarrow>
          ar_intent r = pq_intent parsed)"
proof (intro conjI impI allI)
  assume "pq_intent parsed \<notin> set [''total_sales'', ''top_products'', ''sales_by_region'',
                             ''monthly_trend'', ''year_comparison'']"
  then show "handle_query argsort message data parsed = None"
    by (simp add: handle_query_def Let_def)
next
  assume "pq_intent parsed = ''total_sales''"
  then show "handle_query argsort message data parsed =
          Some (total_sales data
                 (if pq_years parsed = [] then None else Some (pq_years parsed))
                 (if pq_regions parsed = [] then None else Some (pq_regions parsed)))"
    by (simp add: handle_query_def Let_def)
next
  assume "pq_intent parsed = ''top_products''"
  then show "handle_query argsort message data parsed =
          Some (top_n_products argsort data
                 (case pq_top_n parsed of None \<Rightarrow> 5 | Some k \<Rightarrow> if k = 0 then 5 else k)
                 (if pq_years parsed = [] then None else Some (pq_years parsed))
                 (if pq_regions parsed = [] then None else Some (pq_regions parsed)))"
    by (simp add: handle_query_def Let_def split: option.splits)
next
  assume "pq_intent parsed = ''sales_by_region''"
  then show "handle_query argsort message data parsed =
          Some (sales_by_region argsort data
                 (if pq_years parsed = [] then None else Some (pq_years parsed)))"
    by (simp add: handle_query_def Let_def)
next
  assume "pq_intent parsed = ''monthly_trend''"
  then show "handle_query argsort message data parsed =
          Some (monthly_trend data
                 (case pq_years parsed of [] \<Rightarrow> None | y # _ \<Rightarrow> Some y)
                 (case pq_regions parsed of [] \<Rightarrow> None | g # _ \<Rightarrow> Some g))"
    by (simp add: handle_query_def Let_def split: list.splits)
next
  assume "pq_intent parsed = ''year_comparison''"
  then show "handle_query argsort message data parsed =
          Some (year_comparison data
                 (if pq_years parsed = [] then None else Some (pq_years parsed))
                 (case pq_regions parsed of [] \<Rightarrow> None | g # _ \<Rightarrow> Some g))"
    by (simp add: handle_query_def Let_def split: list.splits)
next
  fix r
  assume "handle_query argsort message data parsed = Some r"
  then show "ar_intent r = pq_intent parsed"
    by (auto simp: handle_query_def Let_def total_sales_def top_n_products_def
        sales_by_region_def monthly_trend_def year_comparison_def split: if_splits)
qed

theorem handle_query_dispatch_witness:
  "handle_query stable_argsort [] sample_df
       \<lparr> pq_intent = ''unknown'', pq_years = [], pq_regions = [], pq_top_n = None \<rparr> = None
   \<and> handle_query stable_argsort [] sample_df
       \<lparr> pq_intent = ''forecast'', pq_years = [2023], pq_regions = [''North''], pq_top_n = Some 3 \<rparr>
       = None
   \<and> handle_query stable_argsort [] sample_df
       \<lparr> pq_intent = ''total_sales'', pq_years = [2021], pq_regions = [], pq_top_n = None \<rparr>
       = Some (total_sales sample_df (Some [2021]) None)"
proof -
  let ?u = "\<lparr> pq_intent = ''unknown'', pq_years = [], pq_regions = [], pq_top_n = None \<rparr>"
  let ?f = "\<lparr> pq_intent = ''forecast'', pq_years = [2023], pq_regions = [''North''],
              pq_top_n = Some 3 \<rparr>"
  let ?t = "\<lparr> pq_intent = ''total_sales'', pq_years = [2021], pq_regions = [],
              pq_top_n = None \<rparr>"
  have "handle_query stable_argsort [] sample_df ?u = None"
    using handle_query_dispatch[where parsed="?u" and argsort=stable_argsort and message="[]" and data=sample_df] by simp
  moreover have "handle_query stable_argsort [] sample_df ?f = None"
    using handle_query_dispatch[where parsed="?f" and argsort=stable_argsort and message="[]" and data=sample_df] by simp
  moreover have "handle_query stable_argsort [] sample_df ?t
       = Some (total_sales sample_df (Some [2021]) None)"
    using handle_query_dispatch[where parsed="?t" and argsort=stable_argsort and message="[]" and data=sample_df] by simp
  ultimately show ?thesis by (intro conjI)
qed

end
